(* ===== verification/Prelude.thy ===== *)
theory Prelude
  imports Main "HOL-Library.Word" "HOL-Library.Multiset"
begin

text \<open>
  Shared vocabulary of the development. A JavaScript function value that the
  program receives or returns (a callback, a wrapped function) is modelled as a
  HOL function from its argument to a state transformer: it takes the state of
  the world, and returns its outcome (a value or a thrown exception) together with
  the new state. A caller that invokes such a function several times in a row is
  \<open>run_calls\<close>; a callback whose invocations are recorded is \<open>logged\<close>, which
  is how the theories below count how often a wrapper invokes its callback. The
  theory also holds the generic list lemmas the components share.
\<close>

named_theorems run_simps "equations that evaluate one call of a wrapper or callback"

subsection \<open>A caller invoking a function on a sequence of arguments\<close>

text \<open>
  Each call starts from the state the previous one left; the outcome of every call
  is recorded, and a call that throws does not stop the caller (the caller catches
  it), as a test harness invoking the wrapped function repeatedly would.
\<close>

fun run_calls :: "('a \<Rightarrow> 's \<Rightarrow> 'r \<times> 's) \<Rightarrow> 'a list \<Rightarrow> 's \<Rightarrow> 'r list \<times> 's" where
  "run_calls f [] s = ([], s)"
| "run_calls f (a # as) s =
     (case f a s of (r, s') \<Rightarrow> (case run_calls f as s' of (rs, s'') \<Rightarrow> (r # rs, s'')))"

text \<open>
  An instrumented callback: it behaves as \<open>f\<close> on the world and appends the
  argument and the outcome of every invocation to a log kept beside the world.
\<close>

definition logged :: "('a \<Rightarrow> 's \<Rightarrow> 'r \<times> 's) \<Rightarrow> 'a \<Rightarrow> ('a \<times> 'r) list \<times> 's \<Rightarrow> 'r \<times> (('a \<times> 'r) list \<times> 's)" where
  "logged f a = (\<lambda>(l, s). case f a s of (r, s') \<Rightarrow> (r, (l @ [(a, r)], s')))"

lemma logged_apply [simp, run_simps]:
  "logged f a (l, s) = (fst (f a s), (l @ [(a, fst (f a s))], snd (f a s)))"
  by (simp add: logged_def split: prod.splits)

lemma run_calls_Nil [simp]: "run_calls f [] s = ([], s)"
  by simp

lemma run_calls_Cons_eq [simp]:
  "run_calls f (a # as) s =
     (fst (f a s) # fst (run_calls f as (snd (f a s))), snd (run_calls f as (snd (f a s))))"
  by (simp split: prod.splits)

declare run_calls.simps(2) [simp del]

lemma length_run_calls [simp]: "length (fst (run_calls f as s)) = length as"
  by (induction as arbitrary: s) auto

lemma run_calls_append:
  "run_calls f (xs @ ys) s =
     (fst (run_calls f xs s) @ fst (run_calls f ys (snd (run_calls f xs s))),
      snd (run_calls f ys (snd (run_calls f xs s))))"
  by (induction xs arbitrary: s) auto

text \<open>The log of a logged callback lists every call with its outcome, in order.\<close>

lemma run_calls_logged:
  "run_calls (logged f) as (log, s) =
     (fst (run_calls f as s), (log @ zip as (fst (run_calls f as s)), snd (run_calls f as s)))"
  by (induction as arbitrary: log s) auto

text \<open>
  Invariants of a run: a property of the state that every call keeps holds after
  the whole run.
\<close>

lemma run_calls_invariant:
  assumes "P s" and "\<And>a s. P s \<Longrightarrow> P (snd (f a s))"
  shows "P (snd (run_calls f as s))"
  using assms(1)
proof (induction as arbitrary: s)
  case Nil
  then show ?case by simp
next
  case (Cons a as)
  from Cons.prems have "P (snd (f a s))" by (rule assms(2))
  then have "P (snd (run_calls f as (snd (f a s))))" by (rule Cons.IH)
  then show ?case by simp
qed

end
