(* ===== verification/JsValues.thy ===== *)
theory JsValues
  imports Prelude
begin

text \<open>
  The JavaScript values and runtime operations that the code of
  \<^verbatim>\<open>src/src/challenges.js\<close> relies on: strict equality \<^verbatim>\<open>===\<close>
  (\<^verbatim>\<open>counter === n\<close> in \<^verbatim>\<open>limitFunctionCallCount\<close>,
  \<^verbatim>\<open>firstVal !== ...\<close> in \<^verbatim>\<open>checkMatchingLeaves\<close>) and the conversion of
  an argument array to a property key (\<^verbatim>\<open>cache[args]\<close> in
  \<^verbatim>\<open>cacheFunction\<close>), which is \<^verbatim>\<open>Array.prototype.join(",")\<close>.
  Strings are sequences of UTF-16 code units, as in JavaScript. Numbers are the
  integral doubles together with NaN, the infinities and negative zero; a finite
  number \<open>Fin i\<close> is printed in plain decimal, which is what JavaScript does for
  the safe integers (\<open>\<bar>i\<bar> \<le> 2^53\<close>). Objects are references (\<open>JObj\<close>); an
  array is a reference with the elements it holds at the moment it is read
  (\<open>JArr\<close>); symbols are references too. The theory also holds the parsing
  of decimal numerals (\<open>digits_value\<close>), by which the runtime recognises the
  property keys that are array indices (\<^verbatim>\<open>Object.values\<close> in
  \<^verbatim>\<open>checkMatchingLeaves\<close>). Its lemmas show that strict equality is an
  equivalence away from NaN, that the key conversion throws nothing but a
  TypeError and throws it on every array holding a symbol, and that the key of a
  list of integers determines the list (printed numerals parse back).
\<close>

type_synonym jsstr = "16 word list"

definition ascii :: "string \<Rightarrow> jsstr" where
  "ascii s = map (\<lambda>c. word_of_nat (of_char c)) s"

datatype jsnum = NaN | PosInf | NegInf | NegZero | Fin int

datatype jsval =
    JUndef
  | JNull
  | JBool bool
  | JNum jsnum
  | JStr jsstr
  | JSym nat
  | JObj nat
  | JArr nat "jsval list"

text \<open>What a JavaScript function can throw: the engine's own errors, or any value.\<close>

datatype jsexn = TypeError | RangeError | Thrown jsval

text \<open>
  A JavaScript function of one (possibly compound) argument, acting on a world
  of type \<open>'s\<close>: its outcome is a thrown exception (\<open>Inl\<close>) or a returned value.
\<close>

type_synonym ('a, 'b, 's) jsfun = "'a \<Rightarrow> 's \<Rightarrow> (jsexn + 'b) \<times> 's"

text \<open>The callback \<^verbatim>\<open>() => {}\<close>: returns \<^verbatim>\<open>undefined\<close> and touches nothing.\<close>

definition noop_cb :: "('a, unit, 's) jsfun" where
  "noop_cb a s = (Inr (), s)"

text \<open>A callback that always throws \<open>e\<close> and touches nothing.\<close>

definition throw_cb :: "jsexn \<Rightarrow> ('a, 'b, 's) jsfun" where
  "throw_cb e a s = (Inl e, s)"

text \<open>A callback computing a function of its argument, without effects.\<close>

definition pure_cb :: "('a \<Rightarrow> 'b) \<Rightarrow> ('a, 'b, 's) jsfun" where
  "pure_cb g a s = (Inr (g a), s)"

subsection \<open>Strict equality\<close>

text \<open>
  \<open>Number::equal\<close> of ECMAScript: NaN equals nothing, and the two zeros are equal.
\<close>

fun zero_canon :: "jsnum \<Rightarrow> jsnum" where
  "zero_canon NegZero = Fin 0"
| "zero_canon x = x"

definition num_strict_eq :: "jsnum \<Rightarrow> jsnum \<Rightarrow> bool" where
  "num_strict_eq x y \<longleftrightarrow> x \<noteq> NaN \<and> y \<noteq> NaN \<and> zero_canon x = zero_canon y"

text \<open>\<open>IsStrictlyEqual\<close>: same type, then same value; objects by identity.\<close>

fun strict_eq :: "jsval \<Rightarrow> jsval \<Rightarrow> bool" where
  "strict_eq JUndef JUndef = True"
| "strict_eq JNull JNull = True"
| "strict_eq (JBool a) (JBool b) = (a = b)"
| "strict_eq (JNum a) (JNum b) = num_strict_eq a b"
| "strict_eq (JStr a) (JStr b) = (a = b)"
| "strict_eq (JSym a) (JSym b) = (a = b)"
| "strict_eq (JObj a) (JObj b) = (a = b)"
| "strict_eq (JArr a _) (JArr b _) = (a = b)"
| "strict_eq _ _ = False"

subsection \<open>Conversion to strings\<close>

definition digit_char :: "nat \<Rightarrow> 16 word" where
  "digit_char d = word_of_nat (48 + d)"

fun nat_str :: "nat \<Rightarrow> jsstr" where
  "nat_str n = (if n < 10 then [digit_char n] else nat_str (n div 10) @ [digit_char (n mod 10)])"

declare nat_str.simps [simp del]

definition int_str :: "int \<Rightarrow> jsstr" where
  "int_str i = (if i < 0 then 45 # nat_str (nat (- i)) else nat_str (nat i))"

text \<open>\<open>Number::toString\<close> on the modelled numbers.\<close>

fun num_str :: "jsnum \<Rightarrow> jsstr" where
  "num_str NaN = ascii ''NaN''"
| "num_str PosInf = ascii ''Infinity''"
| "num_str NegInf = ascii ''-Infinity''"
| "num_str NegZero = ascii ''0''"
| "num_str (Fin i) = int_str i"

text \<open>
  \<^verbatim>\<open>Array.prototype.join\<close> with the separator \<^verbatim>\<open>","\<close> (code unit 44), which is
  what \<^verbatim>\<open>ToPropertyKey\<close> of an array computes through
  \<^verbatim>\<open>Array.prototype.toString\<close>. An element that is \<^verbatim>\<open>undefined\<close> or
  \<^verbatim>\<open>null\<close> gives the empty string; any other element is converted by
  \<^verbatim>\<open>ToString\<close>, which throws a TypeError on a symbol, gives
  \<^verbatim>\<open>"[object Object]"\<close> for a plain object and joins a nested array recursively.
\<close>

fun elem_str :: "jsval \<Rightarrow> jsexn + jsstr"
  and join_str :: "jsval list \<Rightarrow> jsexn + jsstr" where
  "elem_str JUndef = Inr []"
| "elem_str JNull = Inr []"
| "elem_str (JBool b) = Inr (ascii (if b then ''true'' else ''false''))"
| "elem_str (JNum n) = Inr (num_str n)"
| "elem_str (JStr s) = Inr s"
| "elem_str (JSym _) = Inl TypeError"
| "elem_str (JObj _) = Inr (ascii ''[object Object]'')"
| "elem_str (JArr _ xs) = join_str xs"
| "join_str [] = Inr []"
| "join_str [x] = elem_str x"
| "join_str (x # y # ys) =
     (case elem_str x of
        Inl e \<Rightarrow> Inl e
      | Inr s \<Rightarrow> (case join_str (y # ys) of Inl e \<Rightarrow> Inl e | Inr t \<Rightarrow> Inr (s @ [44] @ t)))"

text \<open>
  The value of a string of decimal digits, or None if it holds another code unit:
  how the runtime recognises a property key that is an array index.
\<close>

fun digits_value :: "jsstr \<Rightarrow> nat \<Rightarrow> nat option" where
  "digits_value [] acc = Some acc"
| "digits_value (c # cs) acc =
     (if 48 \<le> unat c \<and> unat c \<le> 57 then digits_value cs (10 * acc + (unat c - 48)) else None)"

subsection \<open>Evaluating the conversion\<close>

lemma nat_str_small [simp]: "n < 10 \<Longrightarrow> nat_str n = [digit_char n]"
  by (simp add: nat_str.simps)

lemma nat_str_big [simp]: "\<not> n < 10 \<Longrightarrow> nat_str n = nat_str (n div 10) @ [digit_char (n mod 10)]"
  by (simp add: nat_str.simps [of n])

subsection \<open>Strict equality is an equivalence away from NaN\<close>

lemma num_strict_eq_Fin [simp]: "num_strict_eq (Fin i) (Fin j) \<longleftrightarrow> i = j"
  by (simp add: num_strict_eq_def)

lemma strict_eq_refl_iff: "strict_eq v v \<longleftrightarrow> v \<noteq> JNum NaN"
  by (cases v) (auto simp: num_strict_eq_def)

lemma strict_eq_sym: "strict_eq v w \<Longrightarrow> strict_eq w v"
  by (induction v w rule: strict_eq.induct) (auto simp: num_strict_eq_def)

lemma strict_eq_trans: "strict_eq u v \<Longrightarrow> strict_eq v w \<Longrightarrow> strict_eq u w"
  by (induction u v rule: strict_eq.induct; cases w) (auto simp: num_strict_eq_def)

lemma strict_eq_NaN [simp]: "\<not> strict_eq (JNum NaN) v" "\<not> strict_eq v (JNum NaN)"
  by (cases v; simp add: num_strict_eq_def)+

lemma strict_eq_not_NaN: "strict_eq v w \<Longrightarrow> v \<noteq> JNum NaN \<and> w \<noteq> JNum NaN"
  by auto

subsection \<open>The only error of the conversion is a TypeError, raised by a symbol\<close>

lemma elem_join_str_error:
  shows "elem_str x = Inl e \<Longrightarrow> e = TypeError" and "join_str xs = Inl e' \<Longrightarrow> e' = TypeError"
  by (induction x and xs arbitrary: e and e' rule: elem_str_join_str.induct)
     (auto split: sum.splits)

lemma join_str_sym: "JSym n \<in> set xs \<Longrightarrow> join_str xs = Inl TypeError"
proof (induction xs rule: induct_list012)
  case 1
  then show ?case by simp
next
  case (2 x)
  then show ?case by auto
next
  case (3 x y ys)
  show ?case
  proof (cases "x = JSym n")
    case True
    then show ?thesis by simp
  next
    case False
    with "3.prems" have "join_str (y # ys) = Inl TypeError" by (intro "3.IH"(2)) simp
    then show ?thesis using elem_join_str_error(1) [of x] by (simp split: sum.splits)
  qed
qed

subsection \<open>Decimal numerals parse back\<close>

lemma unat_digit_char: "d < 10 \<Longrightarrow> unat (digit_char d) = 48 + d"
  unfolding digit_char_def unat_of_nat by simp

lemma digits_value_append:
  "digits_value (xs @ ys) acc = (case digits_value xs acc of None \<Rightarrow> None | Some v \<Rightarrow> digits_value ys v)"
  by (induction xs arbitrary: acc) auto

lemma digits_value_nat_str: "digits_value (nat_str n) acc = Some (acc * 10 ^ length (nat_str n) + n)"
proof (induction n arbitrary: acc rule: nat_str.induct)
  case (1 n)
  show ?case
  proof (cases "n < 10")
    case True
    then show ?thesis by (simp add: unat_digit_char)
  next
    case False
    then have "digits_value (nat_str n) acc =
        Some (10 * (acc * 10 ^ length (nat_str (n div 10)) + n div 10) + n mod 10)"
      using "1.IH" [OF False] by (simp add: digits_value_append unat_digit_char)
    also have "\<dots> = Some (acc * 10 ^ length (nat_str n) + n)"
      using False by simp
    finally show ?thesis .
  qed
qed

lemma digits_value_nat_str_0: "digits_value (nat_str n) 0 = Some n"
  using digits_value_nat_str [of n 0] by (simp only: mult_0 add_0)

lemma nat_str_inj: "nat_str m = nat_str n \<Longrightarrow> m = n"
  by (metis digits_value_nat_str_0 option.inject)

lemma nat_str_digits: "c \<in> set (nat_str n) \<Longrightarrow> 48 \<le> unat c \<and> unat c \<le> 57"
proof (induction n rule: nat_str.induct)
  case (1 n)
  then show ?case by (cases "n < 10") (auto simp: unat_digit_char)
qed

lemma nat_str_ne [simp]: "nat_str n \<noteq> []"
  by (cases "n < 10") simp_all

lemma nat_str_no_sep: "c \<in> set (nat_str n) \<Longrightarrow> c \<noteq> 44 \<and> c \<noteq> 45"
proof -
  assume "c \<in> set (nat_str n)"
  then have "48 \<le> unat c" using nat_str_digits by blast
  then show ?thesis by auto
qed

lemma int_str_ne [simp]: "int_str i \<noteq> []"
  by (simp add: int_str_def)

lemma int_str_no_comma: "44 \<notin> set (int_str i)"
  by (auto simp: int_str_def dest: nat_str_no_sep)

lemma int_str_inj: "int_str i = int_str j \<Longrightarrow> i = j"
proof -
  assume eq: "int_str i = int_str j"
  have hd: "hd (nat_str n) \<noteq> 45" for n using nat_str_no_sep [of "hd (nat_str n)" n] by simp
  show "i = j"
  proof (cases "i < 0"; cases "j < 0")
    assume "i < 0" "j < 0"
    with eq have "nat_str (nat (- i)) = nat_str (nat (- j))" by (simp add: int_str_def)
    with \<open>i < 0\<close> \<open>j < 0\<close> show ?thesis by (auto dest: nat_str_inj)
  next
    assume "i < 0" "\<not> j < 0"
    with eq have "hd (nat_str (nat j)) = 45" by (simp add: int_str_def) (metis list.sel(1))
    with hd show ?thesis by blast
  next
    assume "\<not> i < 0" "j < 0"
    with eq have "hd (nat_str (nat i)) = 45" by (simp add: int_str_def)
    with hd show ?thesis by blast
  next
    assume "\<not> i < 0" "\<not> j < 0"
    with eq have "nat_str (nat i) = nat_str (nat j)" by (simp add: int_str_def)
    with \<open>\<not> i < 0\<close> \<open>\<not> j < 0\<close> show ?thesis by (auto dest: nat_str_inj)
  qed
qed

subsection \<open>Keys of integer argument lists are distinct\<close>

lemma sep_split:
  assumes "44 \<notin> set s" "44 \<notin> set s'" "s @ 44 # t = s' @ 44 # t'"
  shows "s = s' \<and> t = t'"
  using assms
proof (induction s arbitrary: s')
  case Nil
  then show ?case by (cases s') auto
next
  case (Cons c s)
  then show ?case by (cases s') auto
qed

lemma int_str_not_sep: "s @ 44 # t \<noteq> int_str x"
  using int_str_no_comma [of x] by (metis in_set_conv_decomp)

lemma join_str_ints: "\<exists>k. join_str (map (\<lambda>i. JNum (Fin i)) xs) = Inr k"
  by (induction xs rule: induct_list012) auto

lemma join_str_ints_inj:
  "join_str (map (\<lambda>i. JNum (Fin i)) xs) = Inr k \<Longrightarrow> join_str (map (\<lambda>i. JNum (Fin i)) ys) = Inr k \<Longrightarrow> xs = ys"
proof (induction xs arbitrary: k ys rule: induct_list012)
  case 1
  then show ?case by (cases ys rule: remdups_adj.cases) (auto split: sum.splits)
next
  case (2 x)
  then show ?case
    by (cases ys rule: remdups_adj.cases) (auto split: sum.splits dest: int_str_inj simp: int_str_not_sep)
next
  case (3 x x' xs)
  obtain t where t: "join_str (map (\<lambda>i. JNum (Fin i)) (x' # xs)) = Inr t"
    using join_str_ints by blast
  with "3.prems"(1) have k: "k = int_str x @ 44 # t" by simp
  show ?case
  proof (cases ys rule: remdups_adj.cases)
    case 1
    with "3.prems"(2) k show ?thesis by simp
  next
    case (2 y)
    with "3.prems"(2) k int_str_no_comma [of y] show ?thesis by auto
  next
    case (3 y y' ys')
    obtain t' where t': "join_str (map (\<lambda>i. JNum (Fin i)) (y' # ys')) = Inr t'"
      using join_str_ints by blast
    with "3.prems"(2) 3 k have "int_str x @ 44 # t = int_str y @ 44 # t'" by simp
    then have hd: "int_str x = int_str y" and tl: "t = t'"
      using sep_split [OF int_str_no_comma int_str_no_comma] by blast+
    from "3.IH"(2) [of t "y' # ys'"] t t' tl have "x' # xs = y' # ys'" by simp
    with hd 3 show ?thesis by (auto dest: int_str_inj)
  qed
qed

end
