(* ===== verification/Iteration.thy ===== *)
theory Iteration
  imports JsValues
begin

text \<open>
  The callback helpers \<^verbatim>\<open>each\<close> and \<^verbatim>\<open>map\<close> (\<^verbatim>\<open>src/src/challenges.js\<close>,
  lines 2--18), both written with \<^verbatim>\<open>Array.prototype.forEach\<close>. An array is a
  list of slots, \<open>None\<close> for a hole: \<^verbatim>\<open>forEach\<close> visits the indices from 0 up to
  the length read at the start and calls its callback with \<^verbatim>\<open>(value, index)\<close> at
  every index that holds an element (\<open>forEach_from\<close>); an exception of the callback
  ends the loop and propagates. The callbacks act on a world \<open>'s\<close>; they cannot
  reach the array itself, so callbacks that change the array they iterate over are
  not modelled.
  \<^item> \<open>each elements cb\<close>: the inner arrow calls \<^verbatim>\<open>cb(value, i)\<close>, discards its
    result and returns \<^verbatim>\<open>undefined\<close>; \<^verbatim>\<open>each\<close> returns what \<^verbatim>\<open>forEach\<close>
    returns, \<^verbatim>\<open>undefined\<close> (\<open>Inr ()\<close>).
  \<^item> \<open>map_js elements cb\<close>: a fresh array \<^verbatim>\<open>resultingArr\<close> is threaded through the
    loop beside the world; the inner arrow pushes \<^verbatim>\<open>cb(i)\<close> (its first parameter,
    named \<^verbatim>\<open>i\<close>, is the element) and returns the new length (\<open>push_result\<close>).
  The reference \<open>seq_calls\<close> runs a callback over a list and stops at the first
  exception; \<open>present\<close> lists the elements of an array with their indices. Both
  helpers are shown equal to \<open>seq_calls\<close> over the present elements, from which
  follow the visiting order, the first-exception behaviour of both helpers, that
  \<^verbatim>\<open>map\<close> makes the same calls as \<^verbatim>\<open>each\<close>, agreement of
  \<^verbatim>\<open>map\<close> with \<open>List.map\<close> on dense arrays and the loss of holes on sparse ones.
\<close>

fun forEach_from :: "('a \<times> nat, 'b, 's) jsfun \<Rightarrow> 'a option list \<Rightarrow> nat \<Rightarrow> 's \<Rightarrow> (jsexn + unit) \<times> 's" where
  "forEach_from cb [] k s = (Inr (), s)"
| "forEach_from cb (None # xs) k s = forEach_from cb xs (Suc k) s"
| "forEach_from cb (Some x # xs) k s =
     (case cb (x, k) s of
        (Inl e, s') \<Rightarrow> (Inl e, s')
      | (Inr _, s') \<Rightarrow> forEach_from cb xs (Suc k) s')"

definition forEach :: "'a option list \<Rightarrow> ('a \<times> nat, 'b, 's) jsfun \<Rightarrow> 's \<Rightarrow> (jsexn + unit) \<times> 's" where
  "forEach xs cb = forEach_from cb xs 0"

definition each :: "'a option list \<Rightarrow> ('a \<times> nat, 'b, 's) jsfun \<Rightarrow> 's \<Rightarrow> (jsexn + unit) \<times> 's" where
  "each elements cb = forEach elements (\<lambda>(value, i) s. case cb (value, i) s of (r, s') \<Rightarrow> (map_sum id (\<lambda>_. ()) r, s'))"

definition push_result :: "('a, 'b, 's) jsfun \<Rightarrow> ('a \<times> nat, nat, 'b list \<times> 's) jsfun" where
  "push_result cb = (\<lambda>(i, _) (acc, s).
     case cb i s of
       (Inl e, s') \<Rightarrow> (Inl e, (acc, s'))
     | (Inr r, s') \<Rightarrow> (Inr (Suc (length acc)), (acc @ [r], s')))"

definition map_js :: "'a option list \<Rightarrow> ('a, 'b, 's) jsfun \<Rightarrow> 's \<Rightarrow> (jsexn + 'b list) \<times> 's" where
  "map_js elements cb s =
     (case forEach elements (push_result cb) ([], s) of
        (Inl e, (_, s')) \<Rightarrow> (Inl e, s')
      | (Inr _, (resultingArr, s')) \<Rightarrow> (Inr resultingArr, s'))"

fun present_from :: "'a option list \<Rightarrow> nat \<Rightarrow> ('a \<times> nat) list" where
  "present_from [] k = []"
| "present_from (None # xs) k = present_from xs (Suc k)"
| "present_from (Some x # xs) k = (x, k) # present_from xs (Suc k)"

definition present :: "'a option list \<Rightarrow> ('a \<times> nat) list" where
  "present xs = present_from xs 0"

fun seq_calls :: "('a, 'b, 's) jsfun \<Rightarrow> 'a list \<Rightarrow> 's \<Rightarrow> (jsexn + 'b list) \<times> 's" where
  "seq_calls cb [] s = (Inr [], s)"
| "seq_calls cb (x # xs) s =
     (case cb x s of
        (Inl e, s') \<Rightarrow> (Inl e, s')
      | (Inr r, s') \<Rightarrow> (case seq_calls cb xs s' of
            (Inl e, s'') \<Rightarrow> (Inl e, s'')
          | (Inr rs, s'') \<Rightarrow> (Inr (r # rs), s'')))"

subsection \<open>Equivalence with a sequential reference loop\<close>

lemma forEach_from_seq:
  "forEach_from cb xs k s = (map_sum id (\<lambda>_. ()) (fst (seq_calls cb (present_from xs k) s)), snd (seq_calls cb (present_from xs k) s))"
  by (induction cb xs k s rule: forEach_from.induct) (auto split: prod.splits sum.splits)

lemma forEach_push:
  "(case forEach_from (push_result cb) xs k (acc, s) of
      (Inl e, (_, s')) \<Rightarrow> (Inl e, s')
    | (Inr _, (acc', s')) \<Rightarrow> (Inr acc', s')) =
   (case seq_calls cb (map fst (present_from xs k)) s of
      (Inl e, s') \<Rightarrow> (Inl e, s')
    | (Inr rs, s') \<Rightarrow> (Inr (acc @ rs), s'))"
proof (induction xs arbitrary: k acc s)
  case Nil
  then show ?case by simp
next
  case (Cons x xs)
  show ?case
  proof (cases x)
    case None
    with Cons.IH show ?thesis by simp
  next
    case (Some v)
    show ?thesis
    proof (cases "fst (cb v s)")
      case (Inl e)
      then obtain s' where "cb v s = (Inl e, s')" by (metis prod.collapse)
      with Some show ?thesis by (simp add: push_result_def)
    next
      case (Inr r)
      then obtain s' where cb: "cb v s = (Inr r, s')" by (metis prod.collapse)
      with Some Cons.IH [of "Suc k" "acc @ [r]" s'] show ?thesis
        by (simp add: push_result_def split: prod.splits sum.splits)
    qed
  qed
qed

lemma map_js_seq: "map_js elements cb s = seq_calls cb (map fst (present elements)) s"
  using forEach_push [of cb elements 0 "[]" s]
  by (simp add: map_js_def forEach_def present_def split: prod.splits sum.splits)

lemma seq_calls_map_result:
  "seq_calls (\<lambda>p s. case cb p s of (r, s') \<Rightarrow> (map_sum id f r, s')) ys s =
     (map_sum id (map f) (fst (seq_calls cb ys s)), snd (seq_calls cb ys s))"
  by (induction ys arbitrary: s) (auto split: prod.splits sum.splits)

lemma each_seq:
  "each elements cb s = (map_sum id (\<lambda>_. ()) (fst (seq_calls cb (present elements) s)), snd (seq_calls cb (present elements) s))"
proof -
  let ?c = "\<lambda>p s. case cb p s of (r, s') \<Rightarrow> (map_sum id (\<lambda>_. ()) r, s')"
  have eq: "(\<lambda>(value, i) s. case cb (value, i) s of (r, s') \<Rightarrow> (map_sum id (\<lambda>_. ()) r, s')) = ?c" by auto
  have "each elements cb s = forEach_from ?c elements 0 s"
    unfolding each_def forEach_def eq ..
  also have "\<dots> = (map_sum id (\<lambda>_. ()) (map_sum id (map (\<lambda>_. ())) (fst (seq_calls cb (present_from elements 0) s))),
      snd (seq_calls cb (present_from elements 0) s))"
    by (simp only: forEach_from_seq seq_calls_map_result fst_conv snd_conv)
  finally show ?thesis
    by (cases "fst (seq_calls cb (present elements) s)") (simp_all add: present_def)
qed

lemma seq_calls_logged_total:
  assumes "\<forall>p s. \<not> isl (fst (cb p s))"
  shows "\<not> isl (fst (seq_calls (logged cb) ys (log, s))) \<and> map fst (fst (snd (seq_calls (logged cb) ys (log, s)))) = map fst log @ ys"
  using assms
proof (induction ys arbitrary: log s)
  case Nil
  then show ?case by simp
next
  case (Cons a ys)
  from Cons.prems obtain r s' where cb: "cb a s = (Inr r, s')"
    by (metis isl_def prod.collapse sum.collapse(2))
  from Cons.IH [OF Cons.prems, of "log @ [(a, Inr r)]" s'] cb show ?case
    by (auto split: prod.splits sum.splits)
qed

lemma present_from_dense: "present_from (map Some xs) k = zip xs [k..<k + length xs]"
  by (induction xs arbitrary: k) (simp_all add: upt_rec)

lemma seq_calls_pure: "seq_calls (pure_cb g) xs s = (Inr (map g xs), s)"
  by (induction xs) (simp_all add: pure_cb_def)

lemma length_present_from: "length (present_from xs k) = length (filter (\<lambda>x. x \<noteq> None) xs)"
  by (induction xs k rule: present_from.induct) simp_all

lemma seq_calls_fst:
  "seq_calls (\<lambda>p. cb (fst p)) ps s = seq_calls cb (map fst ps) s"
  by (induction ps arbitrary: s) (auto split: prod.splits sum.splits)

lemma seq_calls_throw:
  "seq_calls cb xs s = (Inr rs, s1) \<Longrightarrow> cb y s1 = (Inl e, s2) \<Longrightarrow> seq_calls cb (xs @ y # ys) s = (Inl e, s2)"
  by (induction xs arbitrary: s rs) (auto split: prod.splits sum.splits)

subsection \<open>Properties\<close>

text \<open>
  Claim C15. For a callback that never throws, \<^verbatim>\<open>each\<close> returns \<^verbatim>\<open>undefined\<close> and calls the callback exactly once for every element present in the array, with its value and index, in increasing index order, skipping holes.
\<close>

theorem each_visits_in_order:
  assumes "\<forall>p s. \<not> isl (fst (cb p s))"
  shows "fst (each elements (logged cb) ([], s)) = Inr ()
       \<and> map fst (fst (snd (each elements (logged cb) ([], s)))) = present elements"
proof -
  from seq_calls_logged_total [OF assms, of "present elements" "[]" s]
  obtain rs where "fst (seq_calls (logged cb) (present elements) ([], s)) = Inr rs"
    and "map fst (fst (snd (seq_calls (logged cb) (present elements) ([], s)))) = present elements"
    by (cases "fst (seq_calls (logged cb) (present elements) ([], s))") auto
  then show ?thesis by (simp add: each_seq)
qed

theorem each_visits_in_order_witness:
  "fst (each [Some (10::nat), None, Some 30] (logged (noop_cb :: (nat \<times> nat, unit, unit) jsfun)) ([], ())) = Inr ()
   \<and> map fst (fst (snd (each [Some (10::nat), None, Some 30] (logged (noop_cb :: (nat \<times> nat, unit, unit) jsfun)) ([], ()))))
       = [(10, 0), (30, 2)]"
proof -
  have "\<forall>p s. \<not> isl (fst ((noop_cb :: (nat \<times> nat, unit, unit) jsfun) p s))" by (simp add: noop_cb_def)
  from each_visits_in_order [OF this, of "[Some 10, None, Some 30]" "()"] show ?thesis
    by (simp add: present_def)
qed

text \<open>
  Claim C17. If the callback throws on the first present element, \<^verbatim>\<open>each\<close> throws the same exception after that one call; no later element is visited.
\<close>

theorem each_stops_at_throw:
  assumes "present elements = p # ps" and "fst (cb p s) = Inl e"
  shows "each elements (logged cb) (log, s) = (Inl e, (log @ [(p, Inl e)], snd (cb p s)))"
  using assms by (simp add: each_seq split: prod.splits)

theorem each_stops_at_throw_witness:
  "each [None, Some (7::nat), Some 8] (logged (throw_cb TypeError :: (nat \<times> nat, unit, unit) jsfun)) ([], ()) =
     (Inl TypeError, ([((7, 1), Inl TypeError)], ()))"
proof -
  have "present [None, Some (7::nat), Some 8] = (7, 1) # [(8, 2)]" by (simp add: present_def)
  moreover have "fst ((throw_cb TypeError :: (nat \<times> nat, unit, unit) jsfun) (7, 1) ()) = Inl TypeError"
    by (simp add: throw_cb_def)
  ultimately show ?thesis using each_stops_at_throw [of "[None, Some (7::nat), Some 8]" "(7, 1)" "[(8, 2)]"
      "throw_cb TypeError :: (nat \<times> nat, unit, unit) jsfun" "()" TypeError "[]"]
    by (simp add: throw_cb_def)
qed

text \<open>
  Claim C16. On an array without holes and an effect-free callback computing \<open>g\<close>, \<^verbatim>\<open>map\<close> returns \<open>List.map g\<close> of the elements and leaves the world unchanged.
\<close>

theorem map_dense_refines:
  "map_js (map Some xs) (pure_cb g) s = (Inr (List.map g xs), s)"
  by (simp add: map_js_seq present_def present_from_dense seq_calls_pure)

text \<open>
  Claim C18. On any array, \<^verbatim>\<open>map\<close> with an effect-free callback returns \<open>g\<close> of the present elements only: the result has one entry per non-hole, so a sparse array gives a shorter result than its length.
\<close>

theorem map_drops_holes:
  "map_js elements (pure_cb g) s = (Inr (List.map (g \<circ> fst) (present elements)), s)
   \<and> length (List.map (g \<circ> fst) (present elements)) = length (filter (\<lambda>x. x \<noteq> None) elements)"
  by (simp add: map_js_seq seq_calls_pure present_def length_present_from)

text \<open>
  Claim C29. If the callback returns normally on the present elements before \<open>y\<close> and throws on \<open>y\<close>, \<^verbatim>\<open>map\<close> throws that exception, the world is the one that call left (no later element is visited), and the partly built \<^verbatim>\<open>resultingArr\<close> is lost.
\<close>

theorem map_throws:
  assumes "map fst (present elements) = xs @ y # ys"
    and "seq_calls cb xs s = (Inr rs, s1)" and "cb y s1 = (Inl e, s2)"
  shows "map_js elements cb s = (Inl e, s2)"
  using seq_calls_throw [OF assms(2,3), of ys] assms(1) by (simp add: map_js_seq)

theorem map_throws_witness:
  "map_js [Some (1::int), None, Some 2, Some 3]
      (\<lambda>x n. if x = 2 then (Inl TypeError, Suc n) else (Inr x, Suc n)) 0 = (Inl TypeError, 2)"
proof -
  let ?cb = "\<lambda>(x::int) n. if x = 2 then (Inl TypeError, Suc n) else (Inr x, Suc n)"
  have p: "map fst (present [Some (1::int), None, Some 2, Some 3]) = [1] @ 2 # [3]"
    by (simp add: present_def)
  have c1: "seq_calls ?cb [1] 0 = (Inr [1], 1)" by simp
  have c2: "?cb 2 1 = (Inl TypeError, 2)" by simp
  from map_throws [OF p c1 c2] show ?thesis .
qed

text \<open>
  Claim C31. \<^verbatim>\<open>map\<close> makes the same calls as \<^verbatim>\<open>each\<close> with a callback that ignores the index: on every array, with every callback, the world afterwards is the same, and \<^verbatim>\<open>map\<close> throws exactly when \<^verbatim>\<open>each\<close> throws, with the same exception.
\<close>

theorem map_each_agree:
  "each elements (\<lambda>p. cb (fst p)) s = (map_sum id (\<lambda>_. ()) (fst (map_js elements cb s)), snd (map_js elements cb s))"
  by (simp add: each_seq map_js_seq seq_calls_fst)

end
