(* ===== verification/Limiter.thy ===== *)
theory Limiter
  imports JsValues
begin

text \<open>
  \<^verbatim>\<open>limitFunctionCallCount(cb, n)\<close> (\<^verbatim>\<open>src/src/challenges.js\<close>, lines 21--32).
  The closure it returns keeps two variables: the counter \<^verbatim>\<open>counter\<close>, a number
  starting at 0, and the limit \<^verbatim>\<open>n\<close>, any value the caller passed. The record
  \<open>limiter\<close> is that closure environment; \<open>limit_call cb\<close> is the arrow
  function \<^verbatim>\<open>(...args) => {...}\<close>, acting on the closure environment and the
  world of \<^verbatim>\<open>cb\<close>. \<^verbatim>\<open>return null\<close> is \<open>Inr None\<close>, a value \<open>v\<close> returned
  by \<^verbatim>\<open>cb\<close> is \<open>Inr (Some v)\<close>, and an exception of \<^verbatim>\<open>cb\<close> propagates. The
  counter is a double: \<^verbatim>\<open>counter++\<close> stops changing at \<open>2^53\<close>, where adding one
  rounds back to the same number (\<open>js_incr\<close>).

  The lemmas show that for a limit \<open>0 \<le> k \<le> 2^53\<close> the wrapper behaves exactly
  as \<^verbatim>\<open>cb\<close> on the first \<open>k\<close> calls and as \<^verbatim>\<open>return null\<close> afterwards
  (\<open>limit_refines\<close>), hence invokes \<^verbatim>\<open>cb\<close> \<open>min m k\<close> times in \<open>m\<close> calls;
  that a throwing \<^verbatim>\<open>cb\<close> still uses up its slot; that the counter stays within the
  limit in every reachable state; that a reachable wrapper below its limit is never
  stuck (its next call invokes \<^verbatim>\<open>cb\<close>) and is exhausted after exactly the
  remaining number of calls; and that a limit the counter never meets
  (a negative number, a string, \<^verbatim>\<open>undefined\<close>, a number beyond \<open>2^53\<close>)
  enforces nothing.
\<close>

record limiter =
  counter :: nat
  lim :: jsval

definition js_incr :: "nat \<Rightarrow> nat" where
  "js_incr c = (if c < 2 ^ 53 then Suc c else c)"

definition limit_call :: "('a, 'b, 's) jsfun \<Rightarrow> ('a, 'b option, limiter \<times> 's) jsfun" where
  "limit_call cb args = (\<lambda>(l, s).
     if strict_eq (JNum (Fin (int (counter l)))) (lim l) then (Inr None, (l, s))
     else (let l' = l\<lparr>counter := js_incr (counter l)\<rparr>
           in case cb args s of (r, s') \<Rightarrow> (map_sum id Some r, (l', s'))))"

definition limiter_init :: "jsval \<Rightarrow> limiter" where
  "limiter_init n = \<lparr>counter = 0, lim = n\<rparr>"

text \<open>The factory returns the arrow function together with its fresh environment.\<close>

definition limitFunctionCallCount ::
  "('a, 'b, 's) jsfun \<Rightarrow> jsval \<Rightarrow> ('a, 'b option, limiter \<times> 's) jsfun \<times> limiter" where
  "limitFunctionCallCount cb n = (limit_call cb, limiter_init n)"

text \<open>
  The states a wrapper can be in: its fresh environment with any world, a call of
  the wrapper, or any change of the world by other code between calls (the closure
  environment is private to the wrapper).
\<close>

inductive limit_reachable :: "('a, 'b, 's) jsfun \<Rightarrow> jsval \<Rightarrow> limiter \<times> 's \<Rightarrow> bool"
  for cb :: "('a, 'b, 's) jsfun" and n :: jsval where
  init: "limit_reachable cb n (limiter_init n, s)"
| call: "limit_reachable cb n st \<Longrightarrow> limit_reachable cb n (snd (limit_call cb a st))"
| world: "limit_reachable cb n (l, s) \<Longrightarrow> limit_reachable cb n (l, s')"

subsection \<open>One call\<close>

lemma limit_call_refused [run_simps]:
  "strict_eq (JNum (Fin (int (counter l)))) (lim l) \<Longrightarrow> limit_call cb a (l, s) = (Inr None, (l, s))"
  by (simp add: limit_call_def)

lemma limit_call_invokes [run_simps]:
  "\<not> strict_eq (JNum (Fin (int (counter l)))) (lim l) \<Longrightarrow>
   limit_call cb a (l, s) =
     (map_sum id Some (fst (cb a s)), (l\<lparr>counter := js_incr (counter l)\<rparr>, snd (cb a s)))"
  by (simp add: limit_call_def split: prod.splits)

lemma limitFunctionCallCount_eq:
  "limitFunctionCallCount cb n = (wrapped, env) \<longleftrightarrow> wrapped = limit_call cb \<and> env = limiter_init n"
  by (auto simp: limitFunctionCallCount_def)

subsection \<open>Runs of the wrapper\<close>

text \<open>
  From a counter \<open>c \<le> k\<close>, a run of \<open>m\<close> calls invokes \<^verbatim>\<open>cb\<close> on the first
  \<open>k - c\<close> of them, in order, and returns null for the rest.
\<close>

lemma limit_run_eq:
  assumes "lim l = JNum (Fin k)" "int (counter l) \<le> k" "k \<le> 2 ^ 53"
  shows "run_calls (limit_call cb) calls (l, s) =
     (map (map_sum id Some) (fst (run_calls cb (take (nat k - counter l) calls) s))
        @ replicate (length calls - (nat k - counter l)) (Inr None),
      (l\<lparr>counter := counter l + min (length calls) (nat k - counter l)\<rparr>,
       snd (run_calls cb (take (nat k - counter l) calls) s)))"
  using assms
proof (induction calls arbitrary: l s)
  case Nil
  then show ?case by simp
next
  case (Cons a calls)
  show ?case
  proof (cases "int (counter l) = k")
    case True
    with Cons.prems have "limit_call cb a (l, s) = (Inr None, (l, s))"
      by (simp add: run_simps)
    with Cons.IH [OF Cons.prems] True show ?thesis by simp
  next
    case False
    from Cons.prems(2) False have c1: "int (counter l) < k" by linarith
    with Cons.prems(3) have "int (counter l) < 2 ^ 53" by linarith
    then have c2: "counter l < 2 ^ 53" by simp
    let ?l' = "l\<lparr>counter := Suc (counter l)\<rparr>"
    have step: "limit_call cb a (l, s) = (map_sum id Some (fst (cb a s)), (?l', snd (cb a s)))"
      using False Cons.prems c2 by (simp add: run_simps js_incr_def)
    have "lim ?l' = JNum (Fin k)" "int (counter ?l') \<le> k" using Cons.prems c1 by simp_all
    note IH = Cons.IH [OF this Cons.prems(3), of "snd (cb a s)"]
    have j: "nat k - counter l = Suc (nat k - Suc (counter l))"
      using c1 by linarith
    from IH step j show ?thesis by (simp add: id_def)
  qed
qed

lemma limit_run_init:
  assumes "0 \<le> k" "k \<le> 2 ^ 53"
  shows "run_calls (limit_call cb) calls (limiter_init (JNum (Fin k)), s) =
     (map (map_sum id Some) (fst (run_calls cb (take (nat k) calls) s))
        @ replicate (length calls - nat k) (Inr None),
      (limiter_init (JNum (Fin k))\<lparr>counter := min (length calls) (nat k)\<rparr>,
       snd (run_calls cb (take (nat k) calls) s)))"
proof -
  have "lim (limiter_init (JNum (Fin k))) = JNum (Fin k)" "int (counter (limiter_init (JNum (Fin k)))) \<le> k"
    using assms by (simp_all add: limiter_init_def)
  from limit_run_eq [OF this assms(2)] show ?thesis
    by (simp add: limiter_init_def)
qed

text \<open>A limit the counter never equals: every call invokes \<^verbatim>\<open>cb\<close>.\<close>

lemma limit_run_unmatched:
  assumes "\<forall>c::nat. c \<le> 2 ^ 53 \<longrightarrow> \<not> strict_eq (JNum (Fin (int c))) (lim l)" "counter l \<le> 2 ^ 53"
  shows "fst (run_calls (limit_call cb) calls (l, s)) = map (map_sum id Some) (fst (run_calls cb calls s))
       \<and> snd (snd (run_calls (limit_call cb) calls (l, s))) = snd (run_calls cb calls s)"
  using assms
proof (induction calls arbitrary: l s)
  case Nil
  then show ?case by simp
next
  case (Cons a calls)
  let ?l' = "l\<lparr>counter := js_incr (counter l)\<rparr>"
  from Cons.prems have step: "limit_call cb a (l, s) = (map_sum id Some (fst (cb a s)), (?l', snd (cb a s)))"
    by (simp add: run_simps)
  have "\<forall>c::nat. c \<le> 2 ^ 53 \<longrightarrow> \<not> strict_eq (JNum (Fin (int c))) (lim ?l')" "counter ?l' \<le> 2 ^ 53"
    using Cons.prems by (simp_all add: js_incr_def)
  from Cons.IH [OF this, of "snd (cb a s)"] step show ?case by (simp add: id_def)
qed

lemma run_calls_throwing: "run_calls (throw_cb e) xs s = (replicate (length xs) (Inl e), s)"
  by (induction xs) (simp_all add: throw_cb_def)

subsection \<open>Reachable states\<close>

lemma limit_reachable_inv:
  "limit_reachable cb n (l, s) \<Longrightarrow>
     lim l = n \<and> counter l \<le> 2 ^ 53 \<and> (\<forall>k. n = JNum (Fin k) \<and> 0 \<le> k \<longrightarrow> int (counter l) \<le> k)"
proof (induction "(l, s)" arbitrary: l s rule: limit_reachable.induct)
  case (init s)
  then show ?case by (simp add: limiter_init_def)
next
  case (call st a)
  obtain l0 s0 where st: "st = (l0, s0)" by (cases st)
  show ?case
  proof (cases "strict_eq (JNum (Fin (int (counter l0)))) (lim l0)")
    case True
    with call st show ?thesis by (simp add: run_simps)
  next
    case False
    with call st show ?thesis by (auto simp: run_simps js_incr_def)
  qed
next
  case (world l s s')
  then show ?case by simp
qed

lemma limit_reachable_one_call:
  "limit_reachable (noop_cb :: (unit, unit, unit) jsfun) (JNum (Fin 1)) (\<lparr>counter = 1, lim = JNum (Fin 1)\<rparr>, ())"
proof -
  have eq: "snd (limit_call noop_cb () (limiter_init (JNum (Fin 1)), ())) = (\<lparr>counter = 1, lim = JNum (Fin 1)\<rparr>, ())"
    by (simp add: limit_call_def limiter_init_def js_incr_def noop_cb_def)
  show ?thesis
    using limit_reachable.call [OF limit_reachable.init, of noop_cb "JNum (Fin 1)" "()" "()"] eq by simp
qed

subsection \<open>Properties\<close>

text \<open>
  Claim C1. A wrapper made by \<^verbatim>\<open>limitFunctionCallCount(cb, k)\<close>
  with \<open>0 \<le> k \<le> 2^53\<close> invokes \<^verbatim>\<open>cb\<close> exactly \<open>min m k\<close> times when it is
  called \<open>m\<close> times: never more than \<open>k\<close>, and on every call until the limit.
\<close>

theorem limit_invocations:
  assumes "limitFunctionCallCount (logged cb) (JNum (Fin k)) = (wrapped, env)"
    and "0 \<le> k" "k \<le> 2 ^ 53"
  shows "length (fst (snd (snd (run_calls wrapped calls (env, ([], s)))))) = min (length calls) (nat k)"
  using assms by (simp add: limitFunctionCallCount_eq limit_run_init run_calls_logged)

theorem limit_invocations_witness:
  "limitFunctionCallCount (logged noop_cb) (JNum (Fin 2)) = (limit_call (logged noop_cb), limiter_init (JNum (Fin 2)))
   \<and> length (fst (snd (snd (run_calls (limit_call (logged noop_cb)) [(), (), (), (), ()]
        (limiter_init (JNum (Fin 2)), ([], ())))))) = 2"
  using limit_invocations [of noop_cb 2 "limit_call (logged noop_cb)" "limiter_init (JNum (Fin 2))"
      "[(), (), (), (), ()]" "()"]
  by (simp add: limitFunctionCallCount_def)

text \<open>
  Claim C3. With a limit \<open>0 \<le> k \<le> 2^53\<close>, a run of the wrapper is
  the run of \<^verbatim>\<open>cb\<close> on the first \<open>k\<close> calls (results wrapped as non-null
  values, exceptions passed through), followed by \<open>null\<close> for every later call;
  the world is left as the \<open>k\<close> invocations left it and the counter ends at
  \<open>min m k\<close>.
\<close>

theorem limit_refines:
  assumes "limitFunctionCallCount cb (JNum (Fin k)) = (wrapped, env)"
    and "0 \<le> k" "k \<le> 2 ^ 53"
  shows "run_calls wrapped calls (env, s) =
     (map (map_sum id Some) (fst (run_calls cb (take (nat k) calls) s))
        @ replicate (length calls - nat k) (Inr None),
      (env\<lparr>counter := min (length calls) (nat k)\<rparr>, snd (run_calls cb (take (nat k) calls) s)))"
  using assms by (simp add: limitFunctionCallCount_eq limit_run_init)

theorem limit_refines_witness:
  "limitFunctionCallCount noop_cb (JNum (Fin 1)) = (limit_call noop_cb, limiter_init (JNum (Fin 1)))
   \<and> run_calls (limit_call noop_cb) [(), ()] (limiter_init (JNum (Fin 1)), ()) =
       ([Inr (Some ()), Inr None], (\<lparr>counter = 1, lim = JNum (Fin 1)\<rparr>, ()))"
  using limit_refines [of noop_cb 1 "limit_call noop_cb" "limiter_init (JNum (Fin 1))" "[(), ()]" "()"]
  by (simp add: limitFunctionCallCount_def noop_cb_def limiter_init_def)

text \<open>
  Claim C7. Once \<open>k\<close> calls have been made, every further call
  returns \<open>null\<close> and changes neither the closure nor the world.
\<close>

theorem limit_after_limit:
  assumes "limitFunctionCallCount cb (JNum (Fin k)) = (wrapped, env)"
    and "0 \<le> k" "k \<le> 2 ^ 53" "nat k \<le> length calls1"
  shows "run_calls wrapped (calls1 @ calls2) (env, s) =
     (fst (run_calls wrapped calls1 (env, s)) @ replicate (length calls2) (Inr None),
      snd (run_calls wrapped calls1 (env, s)))"
  using assms by (simp add: limitFunctionCallCount_eq limit_run_init replicate_add [symmetric] min_def)

theorem limit_after_limit_witness:
  "limitFunctionCallCount noop_cb (JNum (Fin 0)) = (limit_call noop_cb, limiter_init (JNum (Fin 0)))
   \<and> run_calls (limit_call noop_cb) ([] @ [(), ()]) (limiter_init (JNum (Fin 0)), ()) =
     (fst (run_calls (limit_call noop_cb) [] (limiter_init (JNum (Fin 0)), ())) @ replicate 2 (Inr None),
      snd (run_calls (limit_call noop_cb) [] (limiter_init (JNum (Fin 0)), ())))"
  using limit_after_limit [of noop_cb 0 "limit_call noop_cb" "limiter_init (JNum (Fin 0))" "[]" "[(), ()]" "()"]
  by (simp add: limitFunctionCallCount_def numeral_2_eq_2)

text \<open>
  Claim C9. The counter is incremented before \<^verbatim>\<open>cb\<close> runs, so
  a call in which \<^verbatim>\<open>cb\<close> throws still uses up one of the \<open>k\<close> invocations: with a
  callback that always throws, the first \<open>min m k\<close> calls throw and the rest
  return \<open>null\<close>.
\<close>

theorem limit_throwing_cb:
  assumes "limitFunctionCallCount (throw_cb e) (JNum (Fin k)) = (wrapped, env)"
    and "0 \<le> k" "k \<le> 2 ^ 53"
  shows "run_calls wrapped calls (env, s) =
     (replicate (min (length calls) (nat k)) (Inl e) @ replicate (length calls - nat k) (Inr None),
      (env\<lparr>counter := min (length calls) (nat k)\<rparr>, s))"
  using assms by (simp add: limitFunctionCallCount_eq limit_run_init run_calls_throwing)

theorem limit_throwing_cb_witness:
  "limitFunctionCallCount (throw_cb TypeError :: (unit, unit, unit) jsfun) (JNum (Fin 1)) =
      (limit_call (throw_cb TypeError), limiter_init (JNum (Fin 1)))
   \<and> run_calls (limit_call (throw_cb TypeError :: (unit, unit, unit) jsfun)) [(), ()] (limiter_init (JNum (Fin 1)), ())
       = ([Inl TypeError, Inr None], (\<lparr>counter = 1, lim = JNum (Fin 1)\<rparr>, ()))"
  using limit_throwing_cb [of TypeError 1 "limit_call (throw_cb TypeError)" "limiter_init (JNum (Fin 1))"
      "[(), ()]" "()"]
  by (simp add: limitFunctionCallCount_def limiter_init_def)

text \<open>
  Claim C11. If no counter value \<open>0, 1, ..., 2^53\<close> is strictly
  equal to \<^verbatim>\<open>n\<close> (a negative or non-integral limit, a string such as
  \<^verbatim>\<open>"2"\<close>, \<^verbatim>\<open>undefined\<close> when the limit is omitted), the wrapper invokes
  \<^verbatim>\<open>cb\<close> on every call: the guard \<^verbatim>\<open>counter === n\<close> never fires.
\<close>

theorem limit_unlimited:
  assumes "limitFunctionCallCount (logged cb) n = (wrapped, env)"
    and "\<forall>c::nat. c \<le> 2 ^ 53 \<longrightarrow> \<not> strict_eq (JNum (Fin (int c))) n"
  shows "length (fst (snd (snd (run_calls wrapped calls (env, ([], s)))))) = length calls"
proof -
  from assms(1) have w: "wrapped = limit_call (logged cb)" "env = limiter_init n"
    by (simp_all add: limitFunctionCallCount_eq)
  have "\<forall>c::nat. c \<le> 2 ^ 53 \<longrightarrow> \<not> strict_eq (JNum (Fin (int c))) (lim env)" "counter env \<le> 2 ^ 53"
    using assms(2) w by (simp_all add: limiter_init_def)
  from limit_run_unmatched [OF this, of "logged cb" calls "([], s)"] w show ?thesis
    by (simp add: run_calls_logged)
qed

theorem limit_unlimited_witness:
  "limitFunctionCallCount (logged noop_cb) JUndef = (limit_call (logged noop_cb), limiter_init JUndef)
   \<and> length (fst (snd (snd (run_calls (limit_call (logged noop_cb)) [(), (), ()]
        (limiter_init JUndef, ([], ())))))) = 3"
  using limit_unlimited [of noop_cb JUndef "limit_call (logged noop_cb)" "limiter_init JUndef" "[(), (), ()]" "()"]
  by (simp add: limitFunctionCallCount_def)

text \<open>
  Claim C5. In every state a wrapper with limit
  \<open>k \<ge> 0\<close> can reach, whatever the world does between calls, the counter is at
  most \<open>k\<close>.
\<close>

theorem limit_reachable_within_limit:
  "limit_reachable cb (JNum (Fin k)) (l, s) \<Longrightarrow> 0 \<le> k \<Longrightarrow> int (counter l) \<le> k"
  by (auto dest: limit_reachable_inv)

theorem limit_reachable_within_limit_witness:
  "limit_reachable (noop_cb :: (unit, unit, unit) jsfun) (JNum (Fin 1)) (\<lparr>counter = 1, lim = JNum (Fin 1)\<rparr>, ())
   \<and> int (counter \<lparr>counter = 1, lim = JNum (Fin 1)\<rparr>) \<le> 1"
  using limit_reachable_within_limit [OF limit_reachable_one_call] limit_reachable_one_call by simp

text \<open>
  Claim C25. A reachable wrapper with limit \<open>k \<le> 2^53\<close> whose counter is below \<open>k\<close> is never stuck: its next call invokes \<^verbatim>\<open>cb\<close>, returns what \<^verbatim>\<open>cb\<close> returns, and moves the counter up by one.
\<close>

theorem limit_progress:
  assumes "limit_reachable cb (JNum (Fin k)) (l, s)" and "int (counter l) < k" and "k \<le> 2 ^ 53"
  shows "fst (limit_call cb a (l, s)) = map_sum id Some (fst (cb a s))
       \<and> counter (fst (snd (limit_call cb a (l, s)))) = Suc (counter l)"
proof -
  from limit_reachable_inv [OF assms(1)] have "lim l = JNum (Fin k)" by simp
  with assms(2) have "\<not> strict_eq (JNum (Fin (int (counter l)))) (lim l)" by simp
  moreover from assms(2,3) have "int (counter l) < 2 ^ 53" by linarith
  then have "counter l < 2 ^ 53" by simp
  ultimately show ?thesis by (simp add: run_simps js_incr_def)
qed

theorem limit_progress_witness:
  "fst (limit_call (noop_cb :: (unit, unit, unit) jsfun) () (limiter_init (JNum (Fin 1)), ())) = Inr (Some ())
   \<and> counter (fst (snd (limit_call (noop_cb :: (unit, unit, unit) jsfun) () (limiter_init (JNum (Fin 1)), ())))) = 1"
proof -
  have r: "limit_reachable (noop_cb :: (unit, unit, unit) jsfun) (JNum (Fin 1)) (limiter_init (JNum (Fin 1)), ())"
    by (rule limit_reachable.init)
  have c: "int (counter (limiter_init (JNum (Fin 1)))) < 1" by (simp add: limiter_init_def)
  have b: "(1 :: int) \<le> 2 ^ 53" by simp
  from limit_progress [OF r c b, where a="()"]
  show ?thesis by (simp add: limiter_init_def noop_cb_def)
qed

text \<open>
  Claim C26. From every reachable state of a wrapper with limit \<open>0 \<le> k \<le> 2^53\<close>, whatever the world did before, the wrapper is exhausted after exactly \<open>k - counter\<close> further calls: the call after them returns null.
\<close>

theorem limit_exhausts:
  assumes "limit_reachable cb (JNum (Fin k)) (l, s)" and "0 \<le> k" and "k \<le> 2 ^ 53"
  shows "fst (limit_call cb b (snd (run_calls (limit_call cb) (replicate (nat k - counter l) a) (l, s)))) = Inr None"
proof -
  from limit_reachable_inv [OF assms(1)] assms(2)
  have lim: "lim l = JNum (Fin k)" and le: "int (counter l) \<le> k" by simp_all
  let ?l' = "l\<lparr>counter := counter l + min (nat k - counter l) (nat k - counter l)\<rparr>"
  have "snd (run_calls (limit_call cb) (replicate (nat k - counter l) a) (l, s))
        = (?l', snd (run_calls cb (take (nat k - counter l) (replicate (nat k - counter l) a)) s))"
    using limit_run_eq [OF lim le assms(3), of cb "replicate (nat k - counter l) a" s] by simp
  moreover from le assms(2) have "int (counter ?l') = k" by simp
  moreover have "lim ?l' = JNum (Fin k)" using lim by simp
  ultimately show ?thesis by (simp add: run_simps)
qed

theorem limit_exhausts_witness:
  "fst (limit_call (noop_cb :: (unit, unit, unit) jsfun) ()
      (snd (run_calls (limit_call noop_cb) (replicate 2 ()) (limiter_init (JNum (Fin 2)), ())))) = Inr None"
proof -
  have r: "limit_reachable (noop_cb :: (unit, unit, unit) jsfun) (JNum (Fin 2)) (limiter_init (JNum (Fin 2)), ())"
    by (rule limit_reachable.init)
  have k: "(0 :: int) \<le> 2" "(2 :: int) \<le> 2 ^ 53" by simp_all
  from limit_exhausts [OF r k, where a="()" and b="()"] show ?thesis by (simp add: limiter_init_def)
qed

end
