(* ===== verification/Memo.thy ===== *)
theory Memo
  imports JsValues
begin

text \<open>
  \<^verbatim>\<open>cacheFunction(cb)\<close> (\<^verbatim>\<open>src/src/challenges.js\<close>, lines 34--52). The
  closure keeps one object, \<^verbatim>\<open>cache\<close>, whose own properties are modelled by the
  record \<open>memo\<close> as a map from property keys (strings) to stored results.
  \<open>memo_call cb\<close> is the arrow function \<^verbatim>\<open>(...args) => {...}\<close>:
  \<^item> \<^verbatim>\<open>hasOwnProperty.call(cache, args)\<close> converts the argument array to a
    property key by \<^verbatim>\<open>Array.prototype.join\<close> (\<open>join_str\<close>), which throws a
    TypeError on a symbol argument;
  \<^item> on a miss, \<^verbatim>\<open>cb(args)\<close> is called with the argument array itself as its one
    argument. The callback may change that array, so a callback is modelled as
    returning, besides its outcome and the world, the elements the array holds when
    it returns (\<open>memo_cb\<close>); a callback that leaves the array alone is
    \<open>nonmut f\<close>. \<^verbatim>\<open>cache[args] = result\<close> converts the array again,
    after the call, and stores under that key; an exception of \<^verbatim>\<open>cb\<close> leaves the
    cache unchanged;
  \<^item> storing under the key \<^verbatim>\<open>"__proto__"\<close> runs the inherited accessor of
    \<^verbatim>\<open>Object.prototype\<close> and creates no own property (\<open>cache_set\<close>); the
    change of prototype it may make is invisible to \<^verbatim>\<open>hasOwnProperty\<close> and is
    not modelled further;
  \<^item> on a hit, the stored value is returned and \<^verbatim>\<open>cb\<close> is not called.
  The cache is the wrapper's own state, beside the callback's world, so a callback
  cannot call the memoized function back: a re-entrant callback, which in
  JavaScript would run twice for one key when it re-enters with the same
  arguments, is not modelled.
  The lemmas show that a non-mutating callback succeeds at most once per key, that
  the memoized function equals a pure callback that gives equal results on
  arguments with equal keys (for any function on argument lists of integers, whose
  keys never collide), what happens on errors and on \<^verbatim>\<open>"__proto__"\<close>, and
  that every cached value is a result the callback returned on an argument with
  that key (\<open>cache_sound\<close>, an invariant of runs), that any two argument lists
  with the same key share one entry (\<open>[2, 3]\<close> and \<open>["2,3"]\<close>, \<open>0\<close> and
  \<open>-0\<close>), and that a callback changing its argument array makes the result be
  stored under another key.
\<close>

record 'b memo =
  cache :: "jsstr \<rightharpoonup> 'b"

type_synonym ('b, 's) memo_cb = "jsval list \<Rightarrow> 's \<Rightarrow> (jsexn + 'b) \<times> jsval list \<times> 's"

text \<open>
  A callback of \<^verbatim>\<open>cacheFunction\<close>: it receives the argument array and returns
  its outcome, the elements the array holds afterwards, and the world.
\<close>

definition proto_key :: jsstr where
  "proto_key = ascii ''__proto__''"

text \<open>\<^verbatim>\<open>cache[key] = v\<close> on a plain object: the key \<^verbatim>\<open>"__proto__"\<close> reaches the inherited setter.\<close>

definition cache_set :: "(jsstr \<rightharpoonup> 'b) \<Rightarrow> jsstr \<Rightarrow> 'b \<Rightarrow> (jsstr \<rightharpoonup> 'b)" where
  "cache_set c k v = (if k = proto_key then c else c(k \<mapsto> v))"

definition memo_call :: "('b, 's) memo_cb \<Rightarrow> (jsval list, 'b, 'b memo \<times> 's) jsfun" where
  "memo_call cb args = (\<lambda>(m, s).
     case join_str args of
       Inl e \<Rightarrow> (Inl e, (m, s))
     | Inr k \<Rightarrow>
         (case cache m k of
            None \<Rightarrow>
              (case cb args s of
                 (Inl e, _, s') \<Rightarrow> (Inl e, (m, s'))
               | (Inr r, args', s') \<Rightarrow>
                   (case join_str args' of
                      Inl e \<Rightarrow> (Inl e, (m, s'))
                    | Inr k' \<Rightarrow> (Inr r, (m\<lparr>cache := cache_set (cache m) k' r\<rparr>, s'))))
          | Some v \<Rightarrow> (Inr v, (m, s))))"

definition memo_init :: "'b memo" where
  "memo_init = \<lparr>cache = Map.empty\<rparr>"

definition cacheFunction :: "('b, 's) memo_cb \<Rightarrow> (jsval list, 'b, 'b memo \<times> 's) jsfun \<times> 'b memo" where
  "cacheFunction cb = (memo_call cb, memo_init)"

text \<open>A callback that leaves its argument array alone.\<close>

definition nonmut :: "(jsval list, 'b, 's) jsfun \<Rightarrow> ('b, 's) memo_cb" where
  "nonmut f args s = (case f args s of (r, s') \<Rightarrow> (r, args, s'))"

text \<open>
  Test callbacks: \<^verbatim>\<open>args => { args.push(0); }\<close>, counting its calls in the world,
  and the length of the key of the argument array.
\<close>

definition push_zero_cb :: "(unit, nat) memo_cb" where
  "push_zero_cb a n = (Inr (), a @ [JNum (Fin 0)], Suc n)"

definition key_length :: "jsval list \<Rightarrow> nat" where
  "key_length a = (case join_str a of Inr k \<Rightarrow> length k | Inl _ \<Rightarrow> 0)"

text \<open>
  The invariant behind the at-most-once property: for each key, at most one logged
  invocation succeeded, and if one did, the key is in the cache.
\<close>

definition once_inv :: "'b memo \<times> (jsval list \<times> (jsexn + 'b)) list \<times> 's \<Rightarrow> bool" where
  "once_inv st = (\<forall>k. k \<noteq> proto_key \<longrightarrow>
     length (filter (\<lambda>(a, r). join_str a = Inr k \<and> \<not> isl r) (fst (snd st))) \<le> 1 \<and>
     (length (filter (\<lambda>(a, r). join_str a = Inr k \<and> \<not> isl r) (fst (snd st))) = 1 \<longrightarrow> cache (fst st) k \<noteq> None))"

text \<open>
  Soundness of the cache against a log of the callback's invocations: every cached
  value is a result the callback returned on some argument array with that key.
\<close>

definition cache_sound :: "'b memo \<times> (jsval list \<times> (jsexn + 'b)) list \<times> 's \<Rightarrow> bool" where
  "cache_sound st = (\<forall>k v. cache (fst st) k = Some v \<longrightarrow>
     (\<exists>a. (a, Inr v) \<in> set (fst (snd st)) \<and> join_str a = Inr k))"

subsection \<open>One call\<close>

text \<open>The definitions that evaluate a concrete run of the memoized function.\<close>

lemmas memo_eval = memo_call_def nonmut_def memo_init_def cache_set_def proto_key_def
  int_str_def digit_char_def ascii_def

lemma memo_call_key_error [run_simps]:
  "join_str args = Inl e \<Longrightarrow> memo_call cb args (m, s) = (Inl e, (m, s))"
  by (simp add: memo_call_def)

lemma memo_call_hit [run_simps]:
  "join_str args = Inr k \<Longrightarrow> cache m k = Some v \<Longrightarrow> memo_call cb args (m, s) = (Inr v, (m, s))"
  by (simp add: memo_call_def)

lemma memo_call_miss_nonmut [run_simps]:
  "join_str args = Inr k \<Longrightarrow> cache m k = None \<Longrightarrow>
   memo_call (nonmut f) args (m, s) =
     (fst (f args s),
      (case fst (f args s) of Inl e \<Rightarrow> m | Inr r \<Rightarrow> m\<lparr>cache := cache_set (cache m) k r\<rparr>),
      snd (f args s))"
  by (simp add: memo_call_def nonmut_def split: prod.splits sum.splits)

lemma cache_set_proto [simp]: "cache_set c k r proto_key = c proto_key"
  by (simp add: cache_set_def)

lemma memo_call_miss_logged:
  "join_str a = Inr k0 \<Longrightarrow> cache m k0 = None \<Longrightarrow>
   memo_call (nonmut (logged f)) a (m, (log, s)) =
     (fst (f a s),
      (case fst (f a s) of Inl e \<Rightarrow> m | Inr r \<Rightarrow> m\<lparr>cache := cache_set (cache m) k0 r\<rparr>),
      (log @ [(a, fst (f a s))], snd (f a s)))"
  by (simp add: run_simps)

lemma cache_set_proto_key [simp]: "cache_set c proto_key r = c"
  by (simp add: cache_set_def)

lemma cacheFunction_eq:
  "cacheFunction cb = (wrapped, env) \<longleftrightarrow> wrapped = memo_call cb \<and> env = memo_init"
  by (auto simp: cacheFunction_def)

subsection \<open>Runs of the memoized function\<close>

lemma once_inv_step:
  assumes "once_inv (m, (log, s))"
  shows "once_inv (snd (memo_call (nonmut (logged f)) a (m, (log, s))))"
proof (cases "join_str a")
  case (Inl e)
  with assms show ?thesis by (simp add: run_simps)
next
  case (Inr k0)
  show ?thesis
  proof (cases "cache m k0")
    case (Some v)
    with Inr assms show ?thesis by (simp add: run_simps)
  next
    case None
    have c0: "k0 \<noteq> proto_key \<Longrightarrow> length (filter (\<lambda>(a, r). join_str a = Inr k0 \<and> \<not> isl r) log) = 0"
      using assms None unfolding once_inv_def by (metis One_nat_def fst_conv le_SucE le_zero_eq snd_conv)
    show ?thesis
    proof (cases "fst (f a s)")
      case (Inl e)
      with Inr None assms show ?thesis
        by (simp add: memo_call_miss_logged once_inv_def)
    next
      case (Inr r)
      with \<open>join_str a = Inr k0\<close> None c0 assms show ?thesis
        by (auto simp: memo_call_miss_logged once_inv_def cache_set_def)
    qed
  qed
qed


lemma once_inv_run:
  "once_inv (m, (log, s)) \<Longrightarrow> once_inv (snd (run_calls (memo_call (nonmut (logged f))) calls (m, (log, s))))"
proof (induction calls arbitrary: m log s)
  case Nil
  then show ?case by simp
next
  case (Cons a calls)
  obtain m' log' s' where st: "snd (memo_call (nonmut (logged f)) a (m, (log, s))) = (m', (log', s'))"
    by (metis prod.exhaust)
  from once_inv_step [OF Cons.prems, of f a] st have "once_inv (m', (log', s'))" by simp
  from Cons.IH [OF this] st show ?case by simp
qed

text \<open>Each call of the memoized function invokes a logged callback at most once.\<close>

lemma memo_log_step:
  "length (fst (snd (snd (memo_call (nonmut (logged f)) a (m, (log, s)))))) \<le> Suc (length log)"
  by (auto simp: memo_call_def nonmut_def split: sum.splits option.splits prod.splits)

lemma memo_log_run:
  "length (fst (snd (snd (run_calls (memo_call (nonmut (logged f))) calls (m, (log, s)))))) \<le> length log + length calls"
proof (induction calls arbitrary: m log s)
  case Nil
  then show ?case by simp
next
  case (Cons a calls)
  obtain m' log' s' where st: "snd (memo_call (nonmut (logged f)) a (m, (log, s))) = (m', (log', s'))"
    by (metis prod.exhaust)
  from memo_log_step [of f a m log s] st have "length log' \<le> Suc (length log)" by simp
  with Cons.IH [of m' log' s'] st show ?case by simp
qed

lemma cache_sound_step:
  assumes "cache_sound (m, (log, s))"
  shows "cache_sound (snd (memo_call (nonmut (logged f)) a (m, (log, s))))"
proof (cases "join_str a")
  case (Inl e)
  with assms show ?thesis by (simp add: run_simps)
next
  case (Inr k0)
  show ?thesis
  proof (cases "cache m k0")
    case (Some v)
    with Inr assms show ?thesis by (simp add: run_simps)
  next
    case None
    show ?thesis
    proof (cases "fst (f a s)")
      case (Inl e)
      with Inr None assms show ?thesis
        by (fastforce simp: memo_call_miss_logged cache_sound_def)
    next
      case (Inr r)
      with \<open>join_str a = Inr k0\<close> None assms show ?thesis
        by (fastforce simp: memo_call_miss_logged cache_sound_def cache_set_def split: if_splits)
    qed
  qed
qed

lemma cache_sound_run:
  "cache_sound st \<Longrightarrow> cache_sound (snd (run_calls (memo_call (nonmut (logged f))) calls st))"
proof (rule run_calls_invariant)
  fix a and st' :: "'a memo \<times> (jsval list \<times> (jsexn + 'a)) list \<times> 'b"
  assume "cache_sound st'"
  then show "cache_sound (snd (memo_call (nonmut (logged f)) a st'))"
    by (cases st') (auto intro: cache_sound_step)
qed

lemma memo_run_pure:
  assumes resp: "\<forall>a\<in>A. \<forall>b\<in>A. \<forall>k. join_str a = Inr k \<and> join_str b = Inr k \<longrightarrow> g a = g b"
    and inv: "\<forall>k v. cache m k = Some v \<longrightarrow> (\<forall>a\<in>A. join_str a = Inr k \<longrightarrow> g a = v)"
    and calls: "set calls \<subseteq> A"
  shows "fst (run_calls (memo_call (nonmut (pure_cb g))) calls (m, s)) =
           map (\<lambda>a. case join_str a of Inl e \<Rightarrow> Inl e | Inr _ \<Rightarrow> Inr (g a)) calls"
  using inv calls
proof (induction calls arbitrary: m)
  case Nil
  then show ?case by simp
next
  case (Cons a calls)
  then have a: "a \<in> A" and calls': "set calls \<subseteq> A" by simp_all
  show ?case
  proof (cases "join_str a")
    case (Inl e)
    with Cons calls' show ?thesis by (simp add: run_simps)
  next
    case (Inr k)
    show ?thesis
    proof (cases "cache m k")
      case (Some v)
      with Inr Cons a calls' show ?thesis by (simp add: run_simps)
    next
      case None
      let ?m' = "m\<lparr>cache := cache_set (cache m) k (g a)\<rparr>"
      have "\<forall>k' v. cache ?m' k' = Some v \<longrightarrow> (\<forall>b\<in>A. join_str b = Inr k' \<longrightarrow> g b = v)"
      proof (intro allI impI ballI)
        fix k' v b
        assume c: "cache ?m' k' = Some v" and bA: "b \<in> A" and b: "join_str b = Inr k'"
        show "g b = v"
        proof (cases "k' = k \<and> k \<noteq> proto_key")
          case True
          with c have "v = g a" by (simp add: cache_set_def)
          moreover from True b Inr resp a bA have "g b = g a" by blast
          ultimately show ?thesis by simp
        next
          case False
          with c have "cache m k' = Some v" by (auto simp: cache_set_def split: if_splits)
          with Cons.prems(1) bA b show ?thesis by blast
        qed
      qed
      from Cons.IH [OF this calls'] Inr None show ?thesis by (simp add: run_simps pure_cb_def)
    qed
  qed
qed

lemma memo_run_proto:
  assumes "join_str args = Inr proto_key" "cache m proto_key = None"
  shows "fst (snd (snd (run_calls (memo_call (nonmut (logged f))) (replicate n args) (m, (log, s)))))
           = log @ map (\<lambda>r. (args, r)) (fst (run_calls f (replicate n args) s))"
  using assms(2)
proof (induction n arbitrary: m log s)
  case 0
  then show ?case by simp
next
  case (Suc n)
  have "memo_call (nonmut (logged f)) args (m, (log, s)) = (fst (f args s), (m, (log @ [(args, fst (f args s))], snd (f args s))))"
    using assms(1) Suc.prems by (simp add: run_simps split: sum.splits)
  with Suc.IH [OF Suc.prems] show ?case by simp
qed

subsection \<open>Properties\<close>

text \<open>
  Claim C2. For a callback that does not change its argument array, the memoized function calls it successfully at most once for each property key other than \<^verbatim>\<open>"__proto__"\<close>, over any sequence of calls: the cache contract of the spec, for the key equivalence the code induces.
\<close>

theorem memo_once_per_key:
  assumes "cacheFunction (nonmut (logged f)) = (wrapped, env)" and "k \<noteq> proto_key"
  shows "length (filter (\<lambda>(a, r). join_str a = Inr k \<and> \<not> isl r)
           (fst (snd (snd (run_calls wrapped calls (env, ([], s))))))) \<le> 1"
proof -
  have "once_inv (snd (run_calls (memo_call (nonmut (logged f))) calls (memo_init, ([], s))))"
    by (rule once_inv_run) (simp add: once_inv_def)
  with assms show ?thesis by (simp add: cacheFunction_eq once_inv_def)
qed

theorem memo_once_per_key_witness:
  "cacheFunction (nonmut (logged (pure_cb key_length))) = (memo_call (nonmut (logged (pure_cb key_length))), memo_init)
   \<and> ascii ''1'' \<noteq> proto_key
   \<and> length (filter (\<lambda>(a, r). join_str a = Inr (ascii ''1'') \<and> \<not> isl r)
        (fst (snd (snd (run_calls (memo_call (nonmut (logged (pure_cb key_length)))) [[JNum (Fin 1)], [JStr (ascii ''1'')]]
           (memo_init, ([], ()))))))) \<le> 1"
proof -
  have "ascii ''1'' \<noteq> proto_key" by (simp add: ascii_def proto_key_def)
  with memo_once_per_key [of "pure_cb key_length" "memo_call (nonmut (logged (pure_cb key_length)))" memo_init
      "ascii ''1''" "[[JNum (Fin 1)], [JStr (ascii ''1'')]]" "()"]
  show ?thesis by (simp add: cacheFunction_def)
qed

text \<open>
  Claim C4. For an effect-free callback computing \<open>g\<close> of its argument array, where \<open>g\<close> agrees on arrays with equal keys, the memoized function returns exactly what \<open>g\<close> returns on every call, and the TypeError of the key conversion on arrays holding a symbol.
\<close>

theorem memo_refines:
  assumes "cacheFunction (nonmut (pure_cb g)) = (wrapped, env)"
    and "\<forall>a b k. join_str a = Inr k \<and> join_str b = Inr k \<longrightarrow> g a = g b"
  shows "fst (run_calls wrapped calls (env, s)) =
           map (\<lambda>a. case join_str a of Inl e \<Rightarrow> Inl e | Inr _ \<Rightarrow> Inr (g a)) calls"
proof -
  from assms(1) have w: "wrapped = memo_call (nonmut (pure_cb g))" "env = memo_init"
    by (simp_all add: cacheFunction_eq)
  have "\<forall>k v. cache (memo_init :: 'a memo) k = Some v \<longrightarrow> (\<forall>a. join_str a = Inr k \<longrightarrow> g a = v)"
    by (simp add: memo_init_def)
  from assms(2) have "\<forall>a\<in>UNIV. \<forall>b\<in>UNIV. \<forall>k. join_str a = Inr k \<and> join_str b = Inr k \<longrightarrow> g a = g b"
    by blast
  from memo_run_pure [OF this, of memo_init calls] w show ?thesis by (simp add: memo_init_def)
qed

theorem memo_refines_witness:
  "cacheFunction (nonmut (pure_cb key_length)) = (memo_call (nonmut (pure_cb key_length)), memo_init)
   \<and> fst (run_calls (memo_call (nonmut (pure_cb key_length))) [[JSym 0], [JBool True]] (memo_init, ()))
       = [Inl TypeError, Inr 4]"
proof -
  have f: "cacheFunction (nonmut (pure_cb key_length)) = (memo_call (nonmut (pure_cb key_length)), memo_init)"
    by (simp add: cacheFunction_def)
  have r: "\<forall>a b k. join_str a = Inr k \<and> join_str b = Inr k \<longrightarrow> key_length a = key_length b"
    by (simp add: key_length_def)
  have "fst (run_calls (memo_call (nonmut (pure_cb key_length))) [[JSym 0], [JBool True]] (memo_init, ()))
       = map (\<lambda>a. case join_str a of Inl e \<Rightarrow> Inl e | Inr _ \<Rightarrow> Inr (key_length a)) [[JSym 0], [JBool True]]"
    by (rule memo_refines [OF f r])
  also have "\<dots> = [Inl TypeError, Inr 4]"
    by (simp add: key_length_def ascii_def)
  finally show ?thesis using f by blast
qed

text \<open>
  Claim C6. Calling the memoized function twice with the same arguments (key not \<^verbatim>\<open>"__proto__"\<close>) invokes the callback once and returns its result both times.
\<close>

theorem memo_same_args_twice:
  assumes "cacheFunction (nonmut (logged f)) = (wrapped, env)"
    and "join_str args = Inr k" "k \<noteq> proto_key" "fst (f args s) = Inr r"
  shows "fst (run_calls wrapped [args, args] (env, ([], s))) = [Inr r, Inr r]
       \<and> fst (snd (snd (run_calls wrapped [args, args] (env, ([], s))))) = [(args, Inr r)]"
  using assms by (simp add: cacheFunction_eq memo_init_def run_simps cache_set_def)

theorem memo_same_args_twice_witness:
  "cacheFunction (nonmut (logged (pure_cb key_length))) = (memo_call (nonmut (logged (pure_cb key_length))), memo_init)
   \<and> join_str [JNum (Fin 4)] = Inr (ascii ''4'') \<and> ascii ''4'' \<noteq> proto_key
   \<and> fst (pure_cb key_length [JNum (Fin 4)] ()) = Inr 1
   \<and> fst (run_calls (memo_call (nonmut (logged (pure_cb key_length)))) [[JNum (Fin 4)], [JNum (Fin 4)]] (memo_init, ([], ())))
       = [Inr 1, Inr 1]
   \<and> fst (snd (snd (run_calls (memo_call (nonmut (logged (pure_cb key_length)))) [[JNum (Fin 4)], [JNum (Fin 4)]]
       (memo_init, ([], ()))))) = [([JNum (Fin 4)], Inr 1)]"
proof -
  have h: "cacheFunction (nonmut (logged (pure_cb key_length))) = (memo_call (nonmut (logged (pure_cb key_length))), memo_init)"
    "join_str [JNum (Fin 4)] = Inr (ascii ''4'')" "ascii ''4'' \<noteq> proto_key"
    "fst (pure_cb key_length [JNum (Fin 4)] ()) = Inr 1"
    by (simp_all add: cacheFunction_def int_str_def digit_char_def ascii_def proto_key_def pure_cb_def key_length_def)
  from memo_same_args_twice [OF h] h show ?thesis by simp
qed

text \<open>
  Claim C8. An exception of the callback propagates and nothing is cached: the call leaves the cache as it was, and the next call with the same arguments invokes the callback again.
\<close>

theorem memo_throw_not_cached:
  assumes "cacheFunction (nonmut (logged f)) = (wrapped, env)"
    and "join_str args = Inr k" "fst (f args s) = Inl e"
  shows "wrapped args (env, ([], s)) = (Inl e, (env, ([(args, Inl e)], snd (f args s))))
       \<and> map fst (fst (snd (snd (run_calls wrapped [args, args] (env, ([], s)))))) = [args, args]"
  using assms by (simp add: cacheFunction_eq memo_init_def run_simps)

theorem memo_throw_not_cached_witness:
  "cacheFunction (nonmut (logged (throw_cb TypeError :: (jsval list, unit, unit) jsfun))) =
      (memo_call (nonmut (logged (throw_cb TypeError))), memo_init)
   \<and> join_str [JNull] = Inr [] \<and> fst ((throw_cb TypeError :: (jsval list, unit, unit) jsfun) [JNull] ()) = Inl TypeError
   \<and> map fst (fst (snd (snd (run_calls (memo_call (nonmut (logged (throw_cb TypeError :: (jsval list, unit, unit) jsfun))))
        [[JNull], [JNull]] (memo_init, ([], ())))))) = [[JNull], [JNull]]"
proof -
  have h: "cacheFunction (nonmut (logged (throw_cb TypeError :: (jsval list, unit, unit) jsfun))) =
      (memo_call (nonmut (logged (throw_cb TypeError))), memo_init)"
    "join_str [JNull] = Inr []" "fst ((throw_cb TypeError :: (jsval list, unit, unit) jsfun) [JNull] ()) = Inl TypeError"
    by (simp_all add: cacheFunction_def throw_cb_def)
  from h conjunct2 [OF memo_throw_not_cached [OF h]] show ?thesis by blast
qed

text \<open>
  Claim C13. An argument list holding a symbol makes the key
  conversion throw a TypeError before the callback is called, and the call changes nothing.
\<close>

theorem memo_symbol_arg:
  "JSym n \<in> set args \<Longrightarrow> memo_call cb args (m, s) = (Inl TypeError, (m, s))"
  by (simp add: join_str_sym run_simps)

theorem memo_symbol_arg_witness:
  "JSym 3 \<in> set [JNum (Fin 1), JSym 3] \<and>
   memo_call (nonmut (pure_cb key_length)) [JNum (Fin 1), JSym 3] (memo_init, ()) = (Inl TypeError, (memo_init, ()))"
  using memo_symbol_arg [of 3 "[JNum (Fin 1), JSym 3]" "nonmut (pure_cb key_length)" memo_init "()"] by simp

text \<open>
  Claim C12. Arguments whose key is \<^verbatim>\<open>"__proto__"\<close> are never cached: every one of \<open>n\<close> calls with them invokes the callback.
\<close>

theorem memo_proto_recomputed:
  assumes "cacheFunction (nonmut (logged f)) = (wrapped, env)" and "join_str args = Inr proto_key"
  shows "length (fst (snd (snd (run_calls wrapped (replicate n args) (env, ([], s)))))) = n"
  using assms memo_run_proto [OF assms(2), of memo_init f n "[]" s]
  by (simp add: cacheFunction_eq memo_init_def)

theorem memo_proto_recomputed_witness:
  "cacheFunction (nonmut (logged (pure_cb key_length))) = (memo_call (nonmut (logged (pure_cb key_length))), memo_init)
   \<and> join_str [JStr proto_key] = Inr proto_key
   \<and> length (fst (snd (snd (run_calls (memo_call (nonmut (logged (pure_cb key_length)))) (replicate 3 [JStr proto_key])
        (memo_init, ([], ())))))) = 3"
proof -
  have h: "cacheFunction (nonmut (logged (pure_cb key_length))) = (memo_call (nonmut (logged (pure_cb key_length))), memo_init)"
    "join_str [JStr proto_key] = Inr proto_key"
    by (simp_all add: cacheFunction_def)
  from memo_proto_recomputed [OF h, of 3 "()"] h show ?thesis by simp
qed

text \<open>
  Claim C10. Argument lists with the same key share one cache entry: after a call with \<open>a\<close> whose callback returns \<open>r\<close>, a call with any \<open>b\<close> whose key equals that of \<open>a\<close> (for example \<open>[2, 3]\<close> and \<open>["2,3"]\<close>, or \<open>[0]\<close> and \<open>[-0]\<close>) returns \<open>r\<close> without calling the callback on \<open>b\<close>.
\<close>

theorem memo_key_collision:
  assumes "cacheFunction (nonmut (logged f)) = (wrapped, env)"
    and "join_str a = Inr k" "join_str b = Inr k" "k \<noteq> proto_key" "fst (f a s) = Inr r"
  shows "fst (run_calls wrapped [a, b] (env, ([], s))) = [Inr r, Inr r]
       \<and> fst (snd (snd (run_calls wrapped [a, b] (env, ([], s))))) = [(a, Inr r)]"
  using assms by (simp add: cacheFunction_eq memo_init_def run_simps cache_set_def)

theorem memo_key_collision_witness:
  "fst (run_calls (memo_call (nonmut (logged (pure_cb length))))
      [[JNum (Fin 2), JNum (Fin 3)], [JStr (ascii ''2,3'')]] (memo_init, ([], ()))) = [Inr 2, Inr 2]
   \<and> fst (snd (snd (run_calls (memo_call (nonmut (logged (pure_cb length))))
      [[JNum (Fin 2), JNum (Fin 3)], [JStr (ascii ''2,3'')]] (memo_init, ([], ())))))
       = [([JNum (Fin 2), JNum (Fin 3)], Inr 2)]"
proof -
  have f: "cacheFunction (nonmut (logged (pure_cb length))) = (memo_call (nonmut (logged (pure_cb length))), memo_init)"
    by (simp add: cacheFunction_def)
  have h: "join_str [JNum (Fin 2), JNum (Fin 3)] = Inr (ascii ''2,3'')" "join_str [JStr (ascii ''2,3'')] = Inr (ascii ''2,3'')"
    "ascii ''2,3'' \<noteq> proto_key" "fst (pure_cb length [JNum (Fin 2), JNum (Fin 3)] ()) = Inr (2::nat)"
    by (simp_all add: memo_eval pure_cb_def)
  from memo_key_collision [OF f h] show ?thesis by simp
qed

text \<open>
  Claim C14. The store key is computed from the argument array after the callback ran: on a miss, a callback that returns \<open>r\<close> and changes its argument array so that its key becomes \<open>k'\<close>, different from the key \<open>k\<close> looked up, makes the result be stored under \<open>k'\<close>, and \<open>k\<close> stays uncached, so the next call with the same arguments invokes the callback again.
\<close>

theorem memo_mutating_cb:
  assumes "join_str a = Inr k" "cache m k = None" "cb a s = (Inr r, a', s')"
    and "join_str a' = Inr k'" "k' \<noteq> k"
  shows "memo_call cb a (m, s) = (Inr r, (m\<lparr>cache := cache_set (cache m) k' r\<rparr>, s'))
       \<and> cache (fst (snd (memo_call cb a (m, s)))) k = None"
  using assms by (simp add: memo_call_def cache_set_def)

theorem memo_mutating_cb_witness:
  "memo_call push_zero_cb [JNum (Fin 1)] (memo_init, 0)
     = (Inr (), (memo_init\<lparr>cache := cache_set (cache memo_init) (ascii ''1,0'') ()\<rparr>, 1))
   \<and> cache (fst (snd (memo_call push_zero_cb [JNum (Fin 1)] (memo_init, 0)))) (ascii ''1'') = None"
proof -
  have h: "join_str [JNum (Fin 1)] = Inr (ascii ''1'')" "cache (memo_init :: unit memo) (ascii ''1'') = None"
    "push_zero_cb [JNum (Fin 1)] 0 = (Inr (), [JNum (Fin 1), JNum (Fin 0)], 1)"
    "join_str [JNum (Fin 1), JNum (Fin 0)] = Inr (ascii ''1,0'')" "ascii ''1,0'' \<noteq> ascii ''1''"
    by (simp_all add: memo_eval push_zero_cb_def)
  from memo_mutating_cb [where cb = push_zero_cb and a = "[JNum (Fin 1)]" and s = 0 and m = memo_init, OF h]
  show ?thesis .
qed

text \<open>
  Claim C28. On argument lists of integers the key conversion is injective, so the memoized function of an effect-free callback computing any \<open>g\<close> returns \<open>g\<close> of every argument list: \<open>[1, 2]\<close> and \<open>[12]\<close>, or \<open>[1, 23]\<close> and \<open>[12, 3]\<close>, never share an entry.
\<close>

theorem memo_int_args:
  assumes "cacheFunction (nonmut (pure_cb g)) = (wrapped, env)"
    and "\<forall>a\<in>set calls. \<exists>xs. a = map (\<lambda>i. JNum (Fin i)) xs"
  shows "fst (run_calls wrapped calls (env, s)) = map (\<lambda>a. Inr (g a)) calls"
proof -
  let ?A = "range (map (\<lambda>i. JNum (Fin i)))"
  from assms(1) have w: "wrapped = memo_call (nonmut (pure_cb g))" "env = memo_init"
    by (simp_all add: cacheFunction_eq)
  have resp: "\<forall>a\<in>?A. \<forall>b\<in>?A. \<forall>k. join_str a = Inr k \<and> join_str b = Inr k \<longrightarrow> g a = g b"
    by (auto dest: join_str_ints_inj)
  have inv: "\<forall>k v. cache memo_init k = Some v \<longrightarrow> (\<forall>a\<in>?A. join_str a = Inr k \<longrightarrow> g a = v)"
    by (simp add: memo_init_def)
  from assms(2) have calls: "set calls \<subseteq> ?A" by blast
  have "map (\<lambda>a. case join_str a of Inl e \<Rightarrow> Inl e | Inr _ \<Rightarrow> Inr (g a)) calls = map (\<lambda>a. Inr (g a)) calls"
  proof (rule map_cong [OF refl])
    fix a assume "a \<in> set calls"
    with calls obtain xs where "a = map (\<lambda>i. JNum (Fin i)) xs" by blast
    with join_str_ints [of xs] show "(case join_str a of Inl e \<Rightarrow> Inl e | Inr _ \<Rightarrow> Inr (g a)) = Inr (g a)"
      by auto
  qed
  with memo_run_pure [OF resp inv calls] w show ?thesis by simp
qed

theorem memo_int_args_witness:
  "fst (run_calls (memo_call (nonmut (pure_cb length))) [[JNum (Fin 1), JNum (Fin 23)], [JNum (Fin 12), JNum (Fin 3)]]
      (memo_init, ())) = [Inr 2, Inr 2]
   \<and> fst (run_calls (memo_call (nonmut (pure_cb length))) [[JNum (Fin 1), JNum (Fin 2)], [JNum (Fin 12)]]
      (memo_init, ())) = [Inr 2, Inr 1]"
proof -
  have f: "cacheFunction (nonmut (pure_cb length)) = (memo_call (nonmut (pure_cb length)), memo_init)"
    by (simp add: cacheFunction_def)
  have c1: "\<forall>a\<in>set [[JNum (Fin 1), JNum (Fin 23)], [JNum (Fin 12), JNum (Fin 3)]]. \<exists>xs. a = map (\<lambda>i. JNum (Fin i)) xs"
    by (auto intro: exI [of _ "[1, 23]"] exI [of _ "[12, 3]"])
  have c2: "\<forall>a\<in>set [[JNum (Fin 1), JNum (Fin 2)], [JNum (Fin 12)]]. \<exists>xs. a = map (\<lambda>i. JNum (Fin i)) xs"
    by (auto intro: exI [of _ "[1, 2]"] exI [of _ "[12]"])
  from memo_int_args [OF f c1, of "()"] memo_int_args [OF f c2, of "()"] show ?thesis by simp
qed

text \<open>
  Claim C30. Over any sequence of calls of the memoized function with a callback that leaves its argument alone, every value in the cache under a key is a result the callback returned, in one of its logged invocations, on an argument array with that key: the cache never holds a value the callback did not compute for that key.
\<close>

theorem memo_cache_sound:
  assumes "cacheFunction (nonmut (logged f)) = (wrapped, env)"
    and "cache (fst (snd (run_calls wrapped calls (env, ([], s))))) k = Some v"
  shows "\<exists>a. (a, Inr v) \<in> set (fst (snd (snd (run_calls wrapped calls (env, ([], s)))))) \<and> join_str a = Inr k"
proof -
  from assms(1) have w: "wrapped = memo_call (nonmut (logged f))" "env = memo_init"
    by (simp_all add: cacheFunction_eq)
  have "cache_sound (snd (run_calls (memo_call (nonmut (logged f))) calls (memo_init, ([], s))))"
    by (rule cache_sound_run) (simp add: cache_sound_def memo_init_def)
  with assms(2) w show ?thesis unfolding cache_sound_def by auto
qed

theorem memo_cache_sound_witness:
  "\<exists>a. (a, Inr 2) \<in> set (fst (snd (snd (run_calls (memo_call (nonmut (logged (pure_cb length))))
      [[JNum (Fin 2), JNum (Fin 3)], [JStr (ascii ''2,3'')]] (memo_init, ([], ())))))) \<and> join_str a = Inr (ascii ''2,3'')"
proof -
  have f: "cacheFunction (nonmut (logged (pure_cb length))) = (memo_call (nonmut (logged (pure_cb length))), memo_init)"
    by (simp add: cacheFunction_def)
  have c: "cache (fst (snd (run_calls (memo_call (nonmut (logged (pure_cb length))))
      [[JNum (Fin 2), JNum (Fin 3)], [JStr (ascii ''2,3'')]] (memo_init, ([], ()))))) (ascii ''2,3'') = Some 2"
    by (simp add: memo_eval pure_cb_def)
  from memo_cache_sound [OF f c] show ?thesis .
qed

end
