(* ===== verification/Recursion.thy ===== *)
theory Recursion
  imports JsValues
begin

text \<open>
  The recursive routines of \<^verbatim>\<open>src/src/challenges.js\<close>.
  \<^item> \<^verbatim>\<open>reverseStr\<close> (lines 57--64) on JavaScript strings, sequences of UTF-16 code
    units: \<^verbatim>\<open>str.substr(1)\<close> and \<^verbatim>\<open>str.charAt(0)\<close> follow
    \<^verbatim>\<open>String.prototype.substr\<close> (negative start counted from the end, clamped to
    the length) and \<^verbatim>\<open>charAt\<close> (empty string out of range). \<open>reverseStr\<close> is
    the function as written, terminating by the length of its argument;
    \<open>reverseStr_stack d\<close> is the same recursion on an engine with \<open>d\<close> stack
    frames left, where a call without a frame throws a RangeError (\<^verbatim>\<open>Maximum call
    stack size exceeded\<close>). The size of a real engine's stack is not fixed by the
    language, so it is a parameter.
  \<^item> \<^verbatim>\<open>flatten\<close> (lines 79--83) has an empty body and returns
    \<^verbatim>\<open>undefined\<close> for every argument, so nothing about it is proved beyond its
    definition.
  The lemmas show that \<^verbatim>\<open>reverseStr\<close> reverses the code units, needs
  exactly one frame per code unit plus one, and breaks every
  surrogate pair: a well-formed UTF-16 string stays well-formed (\<open>utf16_wf\<close>)
  exactly when it has no surrogates.
\<close>

definition js_substr :: "jsstr \<Rightarrow> int \<Rightarrow> jsstr" where
  "js_substr s start =
     (let n = int (length s); st = (if start < 0 then max (n + start) 0 else min start n)
      in drop (nat st) s)"

definition js_charAt :: "jsstr \<Rightarrow> int \<Rightarrow> jsstr" where
  "js_charAt s pos = (if 0 \<le> pos \<and> pos < int (length s) then [s ! nat pos] else [])"

text \<open>The function as written; its recursion ends since \<^verbatim>\<open>substr(1)\<close> shortens a non-empty string.\<close>

function reverseStr :: "jsstr \<Rightarrow> jsstr" where
  "reverseStr str = (if str = [] then [] else reverseStr (js_substr str 1) @ js_charAt str 0)"
  by pat_completeness auto
termination
  by (relation "measure length") (auto simp: js_substr_def)

declare reverseStr.simps [simp del]

text \<open>The same recursion with \<open>d\<close> stack frames available.\<close>

fun reverseStr_stack :: "nat \<Rightarrow> jsstr \<Rightarrow> jsexn + jsstr" where
  "reverseStr_stack 0 str = Inl RangeError"
| "reverseStr_stack (Suc d) str =
     (if str = [] then Inr []
      else (case reverseStr_stack d (js_substr str 1) of
              Inl e \<Rightarrow> Inl e
            | Inr r \<Rightarrow> Inr (r @ js_charAt str 0)))"

text \<open>UTF-16 surrogates and well-formed UTF-16 (every high surrogate followed by a low one, no lone low surrogate).\<close>

definition is_high :: "16 word \<Rightarrow> bool" where
  "is_high c \<longleftrightarrow> 0xD800 \<le> c \<and> c \<le> 0xDBFF"

definition is_low :: "16 word \<Rightarrow> bool" where
  "is_low c \<longleftrightarrow> 0xDC00 \<le> c \<and> c \<le> 0xDFFF"

fun utf16_wf :: "jsstr \<Rightarrow> bool" where
  "utf16_wf [] = True"
| "utf16_wf (c # cs) =
     (if is_high c then (case cs of d # ds \<Rightarrow> is_low d \<and> utf16_wf ds | [] \<Rightarrow> False)
      else \<not> is_low c \<and> utf16_wf cs)"

text \<open>\<^verbatim>\<open>flatten\<close> as written: its body is empty.\<close>

definition flatten :: "jsval list \<Rightarrow> jsval" where
  "flatten elements = JUndef"

abbreviation no_surrogate :: "jsstr \<Rightarrow> bool" where
  "no_surrogate s \<equiv> (\<forall>c\<in>set s. \<not> is_high c \<and> \<not> is_low c)"

subsection \<open>Lemmas\<close>

lemma js_substr_1: "js_substr (c # cs) 1 = cs"
  by (simp add: js_substr_def)

lemma js_charAt_0: "js_charAt (c # cs) 0 = [c]"
  by (simp add: js_charAt_def)

lemma reverseStr_rev: "reverseStr s = rev s"
proof (induction s)
  case Nil
  then show ?case by (simp add: reverseStr.simps)
next
  case (Cons c cs)
  then show ?case by (simp add: reverseStr.simps [of "c # cs"] js_substr_1 js_charAt_0)
qed

lemma reverseStr_stack_eq: "reverseStr_stack d s = (if length s < d then Inr (rev s) else Inl RangeError)"
proof (induction d arbitrary: s)
  case 0
  then show ?case by simp
next
  case (Suc d)
  then show ?case by (cases s) (simp_all add: js_substr_1 js_charAt_0)
qed

lemma low_not_high: "is_low c \<Longrightarrow> \<not> is_high c"
proof
  assume "is_low c" "is_high c"
  then have "(0xDC00 :: 16 word) \<le> 0xDBFF"
    unfolding is_low_def is_high_def by (meson order_trans)
  then show False by simp
qed

lemma utf16_wf_no_surrogate_prefix: "no_surrogate p \<Longrightarrow> utf16_wf (p @ r) = utf16_wf r"
  by (induction p) auto

lemma utf16_wf_last_pair:
  "utf16_wf s \<Longrightarrow> \<not> no_surrogate s \<Longrightarrow>
   \<exists>ys h l zs. s = ys @ [h, l] @ zs \<and> is_high h \<and> is_low l \<and> no_surrogate zs"
proof (induction s rule: utf16_wf.induct)
  case 1
  then show ?case by simp
next
  case (2 c cs)
  show ?case
  proof (cases "is_high c")
    case True
    with "2.prems"(1) obtain d ds where cs: "cs = d # ds" "is_low d" "utf16_wf ds"
      by (auto split: list.splits)
    show ?thesis
    proof (cases "no_surrogate ds")
      case True
      with cs \<open>is_high c\<close> show ?thesis by (intro exI [of _ "[]"]) auto
    next
      case False
      with cs True "2.IH"(1) obtain ys h l zs where
        "ds = ys @ [h, l] @ zs" "is_high h" "is_low l" "no_surrogate zs" by blast
      with cs show ?thesis by (intro exI [of _ "c # d # ys"]) auto
    qed
  next
    case False
    with "2.prems" have "\<not> is_low c" "utf16_wf cs" "\<not> no_surrogate cs" by auto
    with False "2.IH"(2) obtain ys h l zs where
      "cs = ys @ [h, l] @ zs" "is_high h" "is_low l" "no_surrogate zs" by blast
    then show ?thesis by (intro exI [of _ "c # ys"]) auto
  qed
qed

lemma utf16_wf_rev_iff: "utf16_wf s \<Longrightarrow> utf16_wf (rev s) \<longleftrightarrow> no_surrogate s"
proof
  assume wf: "utf16_wf s" and wfr: "utf16_wf (rev s)"
  show "no_surrogate s"
  proof (rule ccontr)
    assume "\<not> no_surrogate s"
    with wf obtain ys h l zs where s: "s = ys @ [h, l] @ zs" "is_low l" "no_surrogate zs"
      using utf16_wf_last_pair by blast
    have "rev s = rev zs @ (l # h # rev ys)" using s by simp
    with s wfr have "utf16_wf (l # h # rev ys)" by (simp add: utf16_wf_no_surrogate_prefix)
    with \<open>is_low l\<close> low_not_high show False by simp
  qed
next
  assume "no_surrogate s"
  then have "utf16_wf (rev s @ [])" by (subst utf16_wf_no_surrogate_prefix) auto
  then show "utf16_wf (rev s)" by simp
qed

subsection \<open>Properties\<close>

text \<open>
  Claim C19. \<^verbatim>\<open>reverseStr\<close> returns a string of the same length whose code unit \<open>i\<close> is code unit \<open>n - 1 - i\<close> of its argument.
\<close>

theorem reverseStr_reverses:
  "length (reverseStr s) = length s \<and> (\<forall>i < length s. reverseStr s ! i = s ! (length s - 1 - i))"
  by (simp add: reverseStr_rev rev_nth)

theorem reverseStr_reverses_witness:
  "length (reverseStr (ascii ''abc'')) = 3 \<and> reverseStr (ascii ''abc'') ! 0 = ascii ''abc'' ! 2"
proof -
  have "length (ascii ''abc'') = 3" by (simp add: ascii_def)
  with reverseStr_reverses [of "ascii ''abc''"] show ?thesis by simp
qed

text \<open>
  Claim C20. With \<open>d\<close> stack frames, the recursion returns the reversed string exactly when the string is shorter than \<open>d\<close>, and throws a RangeError otherwise: it uses one frame per code unit plus one for the empty string.
\<close>

theorem reverseStr_stack_exact:
  "reverseStr_stack d s = (if length s < d then Inr (reverseStr s) else Inl RangeError)"
  by (simp add: reverseStr_stack_eq reverseStr_rev)

text \<open>
  Claim C21. A well-formed UTF-16 string reverses to a well-formed one exactly when it contains no surrogate code units: reversing by code units splits every surrogate pair.
\<close>

theorem reverseStr_utf16:
  "utf16_wf s \<Longrightarrow> utf16_wf (reverseStr s) \<longleftrightarrow> (\<forall>c\<in>set s. \<not> is_high c \<and> \<not> is_low c)"
  by (simp add: reverseStr_rev utf16_wf_rev_iff)

theorem reverseStr_utf16_witness:
  "utf16_wf [0xD83D, 0xDE00] \<and> \<not> utf16_wf (reverseStr [0xD83D, 0xDE00])"
proof -
  have wf: "utf16_wf [0xD83D, 0xDE00]" by (simp add: is_high_def is_low_def)
  have "\<not> (\<forall>c\<in>set [0xD83D, 0xDE00 :: 16 word]. \<not> is_high c \<and> \<not> is_low c)"
    by (simp add: is_high_def)
  with reverseStr_utf16 [OF wf] wf show ?thesis by simp
qed

end
