(* ===== verification/Leaves.thy ===== *)
theory Leaves
  imports JsValues
begin

text \<open>
  \<^verbatim>\<open>checkMatchingLeaves\<close> (\<^verbatim>\<open>src/src/challenges.js\<close>, lines 66--77) and the
  part of the runtime it calls, \<^verbatim>\<open>Object.values\<close>. An object is the list of its
  own enumerable string-keyed properties in creation order (\<open>jsobj\<close>); symbol keys
  and non-enumerable properties are invisible to \<^verbatim>\<open>Object.values\<close> and are left
  out. \<^verbatim>\<open>Object.values\<close> lists the values in the order of
  \<^verbatim>\<open>OrdinaryOwnPropertyKeys\<close>: first the keys that are array indices
  (\<open>array_index\<close>: canonical decimal numerals below \<open>2^32 - 1\<close>) in ascending
  numeric order, then the other keys in creation order. The loop of
  \<^verbatim>\<open>checkMatchingLeaves\<close> is \<open>check_from\<close>, terminating by the number of
  values left; reading \<^verbatim>\<open>Object.values(obj)[i]\<close> anew in every iteration gives
  the same list, since the model has no getters. The lemmas show that the function
  returns true exactly when the object has at most one property or all its values
  are pairwise strictly equal, that the result does not depend on the order of the
  properties, and what strict equality means for NaN and signed zeros.
\<close>

text \<open>An object: its own enumerable string-keyed properties, in creation order.\<close>

type_synonym jsobj = "(jsstr \<times> jsval) list"

text \<open>
  An array index: the canonical numeral of a number below \<open>2^32 - 1\<close> (no sign, no
  leading zero but for \<^verbatim>\<open>"0"\<close> itself).
\<close>

definition array_index :: "jsstr \<Rightarrow> nat option" where
  "array_index k =
     (if k = [] \<or> (hd k = 48 \<and> length k > 1) then None
      else (case digits_value k 0 of
              Some v \<Rightarrow> if v < 2 ^ 32 - 1 then Some v else None
            | None \<Rightarrow> None))"

text \<open>\<^verbatim>\<open>Object.values\<close>: index keys ascending, then the other keys in creation order.\<close>

definition object_values :: "jsobj \<Rightarrow> jsval list" where
  "object_values obj =
     map snd (sort_key (\<lambda>p. the (array_index (fst p))) (filter (\<lambda>p. array_index (fst p) \<noteq> None) obj)
              @ filter (\<lambda>p. array_index (fst p) = None) obj)"

text \<open>Reading an element \<^verbatim>\<open>a[i]\<close> of an array: \<^verbatim>\<open>undefined\<close> out of range.\<close>

definition js_index :: "jsval list \<Rightarrow> nat \<Rightarrow> jsval" where
  "js_index vs i = (if i < length vs then vs ! i else JUndef)"

text \<open>
  The loop \<^verbatim>\<open>for (let i = 1; i < Object.values(obj).length; i++)\<close> from index
  \<open>i\<close>, with its early \<^verbatim>\<open>return false\<close>.
\<close>

function check_from :: "jsval \<Rightarrow> jsval list \<Rightarrow> nat \<Rightarrow> bool" where
  "check_from firstVal vs i =
     (if i < length vs then (if \<not> strict_eq firstVal (vs ! i) then False else check_from firstVal vs (Suc i))
      else True)"
  by pat_completeness auto
termination
  by (relation "measure (\<lambda>(_, vs, i). length vs - i)") auto

declare check_from.simps [simp del]

definition checkMatchingLeaves :: "jsobj \<Rightarrow> bool" where
  "checkMatchingLeaves obj =
     (let firstVal = js_index (object_values obj) 0 in check_from firstVal (object_values obj) 1)"

subsection \<open>The loop compares the first value with every other one\<close>

lemma check_from_iff: "check_from fv vs i \<longleftrightarrow> (\<forall>j. i \<le> j \<and> j < length vs \<longrightarrow> strict_eq fv (vs ! j))"
proof (induction fv vs i rule: check_from.induct)
  case (1 fv vs i)
  show ?case
  proof (cases "i < length vs")
    case True
    with "1.IH" show ?thesis
      by (auto simp: check_from.simps [of fv vs i] le_less_Suc_eq Suc_le_eq dest: le_neq_implies_less)
  next
    case False
    then show ?thesis by (auto simp: check_from.simps [of fv vs i])
  qed
qed

lemma all_first_iff_pairwise:
  assumes "2 \<le> length vs"
  shows "(\<forall>j. 1 \<le> j \<and> j < length vs \<longrightarrow> strict_eq (vs ! 0) (vs ! j)) \<longleftrightarrow>
         (\<forall>v\<in>set vs. \<forall>w\<in>set vs. strict_eq v w)"
proof
  assume all: "\<forall>j. 1 \<le> j \<and> j < length vs \<longrightarrow> strict_eq (vs ! 0) (vs ! j)"
  with assms have "strict_eq (vs ! 0) (vs ! 1)" by simp
  then have r0: "strict_eq (vs ! 0) (vs ! 0)"
    using strict_eq_trans strict_eq_sym by metis
  have each: "strict_eq (vs ! 0) v" if "v \<in> set vs" for v
  proof -
    from that obtain j where j: "j < length vs" "v = vs ! j" by (auto simp: in_set_conv_nth)
    show ?thesis
    proof (cases "j = 0")
      case True
      with j r0 show ?thesis by simp
    next
      case False
      with j all show ?thesis by simp
    qed
  qed
  show "\<forall>v\<in>set vs. \<forall>w\<in>set vs. strict_eq v w"
  proof (intro ballI)
    fix v w assume "v \<in> set vs" "w \<in> set vs"
    with each have "strict_eq v (vs ! 0)" "strict_eq (vs ! 0) w" by (auto intro: strict_eq_sym)
    then show "strict_eq v w" by (rule strict_eq_trans)
  qed
next
  assume pw: "\<forall>v\<in>set vs. \<forall>w\<in>set vs. strict_eq v w"
  show "\<forall>j. 1 \<le> j \<and> j < length vs \<longrightarrow> strict_eq (vs ! 0) (vs ! j)"
  proof (intro allI impI)
    fix j assume j: "1 \<le> j \<and> j < length vs"
    from assms have "0 < length vs" by linarith
    then have "vs ! 0 \<in> set vs" by (rule nth_mem)
    moreover from j have "vs ! j \<in> set vs" by simp
    ultimately show "strict_eq (vs ! 0) (vs ! j)" using pw by blast
  qed
qed

subsection \<open>\<^verbatim>\<open>Object.values\<close> permutes the values\<close>

lemma mset_filter_split: "mset (filter P xs) + mset (filter (\<lambda>x. \<not> P x) xs) = mset xs"
  by (induction xs) auto

lemma mset_object_values: "mset (object_values obj) = mset (map snd obj)"
  unfolding object_values_def mset_map
  using mset_filter_split [of "\<lambda>p. array_index (fst p) \<noteq> None" obj]
  by (simp add: mset_sort)

lemma length_object_values [simp]: "length (object_values obj) = length obj"
  by (metis mset_object_values size_mset length_map)

lemma set_object_values [simp]: "set (object_values obj) = set (map snd obj)"
  by (metis mset_object_values set_mset_mset)

lemma checkMatchingLeaves_pairwise:
  "checkMatchingLeaves obj \<longleftrightarrow>
     length obj \<le> 1 \<or> (\<forall>v\<in>set (map snd obj). \<forall>w\<in>set (map snd obj). strict_eq v w)"
proof (cases "2 \<le> length obj")
  case True
  then have two: "2 \<le> length (object_values obj)" by simp
  then have ne: "0 < length (object_values obj)" by linarith
  have "checkMatchingLeaves obj \<longleftrightarrow>
          (\<forall>v\<in>set (object_values obj). \<forall>w\<in>set (object_values obj). strict_eq v w)"
    unfolding checkMatchingLeaves_def Let_def check_from_iff js_index_def if_P [OF ne]
    by (rule all_first_iff_pairwise [OF two])
  then show ?thesis using True by simp
next
  case False
  then show ?thesis
    by (auto simp: checkMatchingLeaves_def Let_def check_from_iff)
qed

lemma checkMatchingLeaves_perm:
  assumes "mset (map snd obj1) = mset (map snd obj2)"
  shows "checkMatchingLeaves obj1 = checkMatchingLeaves obj2"
proof -
  from assms have "set (map snd obj1) = set (map snd obj2)" by (metis set_mset_mset)
  moreover from assms have "length obj1 = length obj2" by (metis size_mset length_map)
  ultimately show ?thesis by (simp only: checkMatchingLeaves_pairwise)
qed


subsection \<open>Properties\<close>

text \<open>
  Claim C22. \<^verbatim>\<open>checkMatchingLeaves\<close> returns true exactly when the object has at most one property or every two of its property values are strictly equal (\<^verbatim>\<open>===\<close>).
\<close>

theorem checkMatchingLeaves_correct:
  "checkMatchingLeaves obj \<longleftrightarrow>
     length obj \<le> 1 \<or> (\<forall>p\<in>set obj. \<forall>q\<in>set obj. strict_eq (snd p) (snd q))"
  by (simp add: checkMatchingLeaves_pairwise)

theorem checkMatchingLeaves_correct_witness:
  "checkMatchingLeaves [(ascii ''a'', JNum (Fin 1)), (ascii ''b'', JNum (Fin 1))]
   \<and> \<not> checkMatchingLeaves [(ascii ''a'', JNum (Fin 1)), (ascii ''b'', JNum (Fin 2))]"
  using checkMatchingLeaves_correct [of "[(ascii ''a'', JNum (Fin 1)), (ascii ''b'', JNum (Fin 1))]"]
        checkMatchingLeaves_correct [of "[(ascii ''a'', JNum (Fin 1)), (ascii ''b'', JNum (Fin 2))]"]
  by simp

text \<open>
  Claim C23. The result depends only on the multiset of property values: neither the keys nor the order in which \<^verbatim>\<open>Object.values\<close> lists the values matter, although the loop compares everything with the first one.
\<close>

theorem checkMatchingLeaves_order_independent:
  "mset (map snd obj1) = mset (map snd obj2) \<Longrightarrow> checkMatchingLeaves obj1 = checkMatchingLeaves obj2"
  by (rule checkMatchingLeaves_perm)

theorem checkMatchingLeaves_order_independent_witness:
  "checkMatchingLeaves [(ascii ''1'', JNum NaN), (ascii ''0'', JNum (Fin 3))]
   = checkMatchingLeaves [(ascii ''x'', JNum (Fin 3)), (ascii ''y'', JNum NaN)]"
  using checkMatchingLeaves_order_independent
          [of "[(ascii ''1'', JNum NaN), (ascii ''0'', JNum (Fin 3))]"
              "[(ascii ''x'', JNum (Fin 3)), (ascii ''y'', JNum NaN)]"]
  by simp

text \<open>
  Claim C24. Strict equality decides the special numbers: an object with a NaN property matches only if it has no other property (\<^verbatim>\<open>NaN !== NaN\<close>), and an object whose values are all \<^verbatim>\<open>0\<close> or \<^verbatim>\<open>-0\<close> matches, although \<^verbatim>\<open>Object.is\<close> tells the two zeros apart.
\<close>

theorem checkMatchingLeaves_NaN_zero:
  "(JNum NaN \<in> snd ` set obj \<longrightarrow> (checkMatchingLeaves obj \<longleftrightarrow> length obj \<le> 1))
   \<and> (snd ` set obj \<subseteq> {JNum NegZero, JNum (Fin 0)} \<longrightarrow> checkMatchingLeaves obj)"
proof (intro conjI impI)
  assume "JNum NaN \<in> snd ` set obj"
  then have n: "JNum NaN \<in> set (map snd obj)" by simp
  have "\<not> strict_eq (JNum NaN) (JNum NaN)" by simp
  with n have "\<not> (\<forall>v\<in>set (map snd obj). \<forall>w\<in>set (map snd obj). strict_eq v w)" by blast
  then show "checkMatchingLeaves obj \<longleftrightarrow> length obj \<le> 1" by (simp only: checkMatchingLeaves_pairwise) blast
next
  assume z: "snd ` set obj \<subseteq> {JNum NegZero, JNum (Fin 0)}"
  have zz: "strict_eq v w" if "v \<in> {JNum NegZero, JNum (Fin 0)}" "w \<in> {JNum NegZero, JNum (Fin 0)}" for v w
    using that by (auto simp: num_strict_eq_def)
  from z have "\<forall>v\<in>set (map snd obj). \<forall>w\<in>set (map snd obj). strict_eq v w"
    by (simp only: set_map) (blast intro: zz)
  then show "checkMatchingLeaves obj" by (simp add: checkMatchingLeaves_pairwise)
qed

theorem checkMatchingLeaves_NaN_zero_witness:
  "\<not> checkMatchingLeaves [(ascii ''a'', JNum NaN), (ascii ''b'', JNum NaN)]
   \<and> checkMatchingLeaves [(ascii ''a'', JNum NaN)]
   \<and> checkMatchingLeaves [(ascii ''a'', JNum NegZero), (ascii ''b'', JNum (Fin 0))]"
  using checkMatchingLeaves_NaN_zero [of "[(ascii ''a'', JNum NaN), (ascii ''b'', JNum NaN)]"]
        checkMatchingLeaves_NaN_zero [of "[(ascii ''a'', JNum NaN)]"]
        checkMatchingLeaves_NaN_zero [of "[(ascii ''a'', JNum NegZero), (ascii ''b'', JNum (Fin 0))]"]
  by simp

end
