(* ===== verification/Spec2Isabelle.thy ===== *)
theory Spec2Isabelle
  imports Iteration Limiter Memo Recursion Leaves
begin

text \<open>
  A verification development of \<^verbatim>\<open>src/src/challenges.js\<close>, a small set of
  JavaScript utilities exported as a module: the iteration helpers
  \<^verbatim>\<open>each\<close> and \<^verbatim>\<open>map\<close> (lines 1--18), the closure-based wrappers
  \<^verbatim>\<open>limitFunctionCallCount\<close> (call limiter, lines 21--32) and
  \<^verbatim>\<open>cacheFunction\<close> (memoizer, lines 34--52), and the routines
  \<^verbatim>\<open>reverseStr\<close> (lines 57--64), \<^verbatim>\<open>checkMatchingLeaves\<close> (lines 66--77) and
  \<^verbatim>\<open>flatten\<close> (lines 79--83). The parts share no state; they interact through
  callbacks: each wrapper receives a function \<^verbatim>\<open>cb\<close> and returns a function, and
  a wrapped function can itself be wrapped (\<^verbatim>\<open>map\<close> calls \<^verbatim>\<open>each\<close>'s
  loop, and a memoized function can be limited).

  \<^bold>\<open>Modelling conventions.\<close> A JavaScript function value is a HOL function
  from its argument to a state transformer (\<open>jsfun\<close>): it takes the world and
  returns its outcome, an exception (\<open>Inl\<close>) or a value (\<open>Inr\<close>), with the new
  world. The closure environment a wrapper keeps is a record threaded beside the
  world; a caller invoking a function repeatedly, catching its exceptions, is
  \<open>run_calls\<close>; a callback whose invocations are recorded is \<open>logged\<close>
  (all in \<open>Prelude\<close>). Reachable states of a wrapper are inductive predicates
  with a rule for every call and a rule for any change of the world by other code.

  \<^bold>\<open>Theories.\<close>
  \<^item> \<open>Prelude\<close>: \<open>run_calls\<close>, \<open>logged\<close> and the lemmas on runs.
  \<^item> \<open>JsValues\<close>: the values (\<open>jsval\<close>, \<open>jsnum\<close>), strings as UTF-16 code
    units, \<^verbatim>\<open>===\<close> (\<open>strict_eq\<close>, used at lines 26 and 72), the key
    conversion \<^verbatim>\<open>ToPropertyKey(args)\<close> through
    \<^verbatim>\<open>Array.prototype.join\<close> (\<open>join_str\<close>, lines 45 and 47) and the parsing of
    decimal numerals (\<open>digits_value\<close>). Lemmas: \<^verbatim>\<open>===\<close> is an equivalence
    away from NaN; numerals parse back; integer argument lists have distinct keys;
    the conversion throws nothing but a TypeError, and throws one on symbols.
  \<^item> \<open>Limiter\<close>: the environment \<open>limiter\<close> (\<^verbatim>\<open>counter\<close>, \<^verbatim>\<open>n\<close>),
    the returned arrow function \<open>limit_call\<close>, \<open>limitFunctionCallCount\<close>, the
    reachable states \<open>limit_reachable\<close>. Lemmas: exact number of invocations,
    refinement by ``run \<^verbatim>\<open>cb\<close> on the first \<open>k\<close> calls, then null'', the
    counter invariant, progress and exhaustion, throwing callbacks, limits that
    are never met (a negative number, a string, \<^verbatim>\<open>undefined\<close>, a number
    beyond \<open>2^53\<close>).
  \<^item> \<open>Memo\<close>: the cache object as a map from keys (\<open>memo\<close>), the store
    \<open>cache_set\<close> (with the \<^verbatim>\<open>__proto__\<close> setter), the returned arrow function
    \<open>memo_call\<close>, \<open>cacheFunction\<close>, the invariant \<open>cache_sound\<close>.
    Lemmas: at most one successful invocation per key, refinement by a pure
    function, exactness on integer arguments, soundness of the cache against the
    log of the callback's invocations, exceptions not cached, key
    collisions, \<^verbatim>\<open>__proto__\<close>, callbacks that mutate their argument.
  \<^item> \<open>Iteration\<close>: \<^verbatim>\<open>Array.prototype.forEach\<close> over arrays with holes
    (\<open>forEach_from\<close>), \<open>each\<close>, \<open>map_js\<close>. Lemmas: order of visits, stop at
    the first exception (for \<^verbatim>\<open>each\<close> and \<^verbatim>\<open>map\<close>), \<^verbatim>\<open>map\<close>
    making the same calls as \<^verbatim>\<open>each\<close>, refinement of
    \<open>List.map\<close> on dense arrays, holes dropped.
  \<^item> \<open>Recursion\<close>: \<open>js_substr\<close>, \<open>js_charAt\<close>, \<open>reverseStr\<close> and its
    bounded-stack version \<open>reverseStr_stack\<close>, \<open>flatten\<close> (whose empty body
    returns \<^verbatim>\<open>undefined\<close>). Lemmas: reversal, exact stack use, surrogate
    pairs broken.
  \<^item> \<open>Leaves\<close>: objects as property lists (\<open>jsobj\<close>), \<^verbatim>\<open>Object.values\<close>
    (\<open>object_values\<close>, with \<open>array_index\<close>), the loop \<open>check_from\<close> and
    \<open>checkMatchingLeaves\<close>. Lemmas: characterisation by pairwise \<^verbatim>\<open>===\<close>,
    independence of the property order, NaN and signed zero.
  \<^item> This theory: properties of the components composed.

  \<^bold>\<open>Bounds and fuel.\<close> Numbers are integral doubles, NaN, the infinities and
  \<^verbatim>\<open>-0\<close>; the counter is a \<open>nat\<close> whose increment \<open>js_incr\<close> saturates at
  \<open>2^53\<close>, where \<^verbatim>\<open>counter++\<close> on a double stops changing, so the limiter's
  theorems take the limit in \<open>0..2^53\<close>; the bound on the counter comes from this
  model of the number, not from the code's guard. \<open>reverseStr\<close> terminates by the length of its argument; the real
  recursion's stack is the parameter \<open>d\<close> of \<open>reverseStr_stack\<close>, and one frame
  per code unit plus one is shown to be exactly enough. The loops of
  \<^verbatim>\<open>forEach\<close> and \<^verbatim>\<open>checkMatchingLeaves\<close> terminate by the number of indices
  left. No fuel is needed elsewhere.

  \<^bold>\<open>Not modelled.\<close> \<^verbatim>\<open>module.exports\<close> (lines 85--93) only names the
  functions. Getters, Proxies, custom \<^verbatim>\<open>toString\<close>/\<^verbatim>\<open>valueOf\<close>,
  non-integral numbers, symbol-keyed and non-enumerable properties, callbacks that
  change the array \<^verbatim>\<open>forEach\<close> iterates, non-string arguments of
  \<^verbatim>\<open>reverseStr\<close>, callbacks that call the memoized or limited function
  back (re-entrancy: the wrapper's closure state is kept apart from the callback's
  world), and the change of prototype a \<^verbatim>\<open>__proto__\<close> store may make are
  outside the model; the JavaScript runtime is modelled only as far as the
  code uses it.
\<close>

subsection \<open>A limited memoized function\<close>

text \<open>
  Claim C27. Limiting a memoized function, \<^verbatim>\<open>limitFunctionCallCount(cacheFunction(cb), k)\<close> with \<open>0 \<le> k \<le> 2^53\<close> and a callback that leaves its argument alone, invokes \<^verbatim>\<open>cb\<close> at most \<open>min m k\<close> times over \<open>m\<close> calls, and successfully at most once for each key other than \<^verbatim>\<open>"__proto__"\<close>.
\<close>

theorem limit_memo_invocations:
  assumes "cacheFunction (nonmut (logged f)) = (memoized, menv)"
    and "limitFunctionCallCount memoized (JNum (Fin k)) = (wrapped, lenv)"
    and "0 \<le> k" "k \<le> 2 ^ 53" "key \<noteq> proto_key"
  shows "length (fst (snd (snd (snd (run_calls wrapped calls (lenv, (menv, ([], s)))))))) \<le> min (length calls) (nat k)
       \<and> length (filter (\<lambda>(a, r). join_str a = Inr key \<and> \<not> isl r)
           (fst (snd (snd (snd (run_calls wrapped calls (lenv, (menv, ([], s))))))))) \<le> 1"
proof -
  from assms(1,2) have w: "memoized = memo_call (nonmut (logged f))" "menv = memo_init"
    "wrapped = limit_call memoized" "lenv = limiter_init (JNum (Fin k))"
    by (simp_all add: cacheFunction_eq limitFunctionCallCount_eq)
  let ?inner = "run_calls (memo_call (nonmut (logged f))) (take (nat k) calls) (memo_init, ([], s))"
  have st: "snd (snd (run_calls wrapped calls (lenv, (menv, ([], s))))) = snd ?inner"
    using limit_run_init [OF assms(3,4), of memoized calls "(menv, ([], s))"] w by simp
  have "length (fst (snd (snd ?inner))) \<le> length (take (nat k) calls)"
    using memo_log_run [of f "take (nat k) calls" memo_init "[]" s] by simp
  moreover have "once_inv (snd ?inner)"
    by (rule once_inv_run) (simp add: once_inv_def)
  ultimately show ?thesis using st assms(5) by (simp add: once_inv_def)
qed

theorem limit_memo_invocations_witness:
  "length (fst (snd (snd (snd (run_calls (limit_call (memo_call (nonmut (logged (pure_cb length)))))
      [[JNum (Fin 1)], [JNum (Fin 1)], [JNum (Fin 2)]] (limiter_init (JNum (Fin 2)), (memo_init, ([], ())))))))) \<le> 2
   \<and> length (filter (\<lambda>(a, r). join_str a = Inr (ascii ''1'') \<and> \<not> isl r)
      (fst (snd (snd (snd (run_calls (limit_call (memo_call (nonmut (logged (pure_cb length)))))
      [[JNum (Fin 1)], [JNum (Fin 1)], [JNum (Fin 2)]] (limiter_init (JNum (Fin 2)), (memo_init, ([], ()))))))))) \<le> 1"
proof -
  have f: "cacheFunction (nonmut (logged (pure_cb length))) = (memo_call (nonmut (logged (pure_cb length))), memo_init)"
    by (simp add: cacheFunction_def)
  have l: "limitFunctionCallCount (memo_call (nonmut (logged (pure_cb length)))) (JNum (Fin 2))
           = (limit_call (memo_call (nonmut (logged (pure_cb length)))), limiter_init (JNum (Fin 2)))"
    by (simp add: limitFunctionCallCount_def)
  have k: "(0 :: int) \<le> 2" "(2 :: int) \<le> 2 ^ 53" by simp_all
  have p: "ascii ''1'' \<noteq> proto_key" by (simp add: ascii_def proto_key_def)
  from limit_memo_invocations [OF f l k p, of "[[JNum (Fin 1)], [JNum (Fin 1)], [JNum (Fin 2)]]" "()"]
  show ?thesis by simp
qed

end
